theory Spec2Isabelle
  imports Complex_Main "HOL-Library.Monad_Syntax"
begin

section \<open>EGM96 geoid undulation: the embedding of \<^verbatim>\<open>EGM96.hpp\<close>\<close>

text \<open>
  Conventions of the embedding.

  \<^item> A \<^verbatim>\<open>double\<close> is a \<open>real\<close>: \<open>+\<close>, \<open>-\<close>, \<open>*\<close>, \<open>/\<close>, \<open>sqrt\<close>, \<open>sin\<close>,
    \<open>cos\<close> and \<open>arctan\<close> are the exact operations. Rounding, NaN and the infinities
    are outside the model; HOL's \<open>x / 0\<close> is \<open>0\<close>, which the quotient of
    \<^verbatim>\<open>computeGeocentricMetrics\<close> meets exactly where \<open>cos lat = 0\<close>. At \<open>\<plusminus>90\<close> degrees
    that is the case when \<^verbatim>\<open>M_PI\<close> is \<open>\<pi>\<close> itself, and not when it has the value of
    the macro.
  \<^item> A \<^verbatim>\<open>u32\<close> is a \<open>nat\<close>. Every subtraction of the source stands under a loop bound
    that keeps it from wrapping (\<open>n1 \<ge> 3\<close>, \<open>n \<ge> m + 2\<close>, \<open>j \<ge> 1\<close>; the lemmas on
    \<open>sub_u32\<close> below), and no sum or product of a query exceeds \<open>360 * 361\<close>.
  \<^item> A \<^verbatim>\<open>double[N]\<close> array is a partial map from indices to values: an element is
    \<open>None\<close> until it is first assigned, the arrays of the source being uninitialised
    stack or member storage. Reading an unassigned element and writing at an index
    \<open>\<ge> N\<close> are undefined behaviour in C++; here they make the whole computation
    \<open>None\<close>. Where a statement of the source reads one element twice (\<^verbatim>\<open>p[k]\<close>,
    \<^verbatim>\<open>cosml[m]\<close> and \<^verbatim>\<open>sinml[m]\<close> in lines 70-78), the model reads it once.
  \<^item> The coefficient table \<^verbatim>\<open>egm96Data\<close> lives in \<^verbatim>\<open>egm96Data.hpp\<close>, which is an
    external data asset: every function that reads it takes it as the parameter
    \<open>egm96Data\<close>, a function from row and column to the coefficient.
\<close>

type_synonym u32 = nat
type_synonym darray = "nat \<rightharpoonup> real"

definition rd :: "darray \<Rightarrow> nat \<Rightarrow> real option" where
  "rd a i = a i"

definition wr :: "nat \<Rightarrow> darray \<Rightarrow> nat \<Rightarrow> real \<Rightarrow> darray option" where
  "wr len a i v = (if i < len then Some (a(i \<mapsto> v)) else None)"

text \<open>
  The counted loop \<^verbatim>\<open>for (u32 i = lo; i <= hi; i++) body\<close>, threading the variables the
  body assigns as the state \<open>s\<close>; a body that fails ends the loop with \<open>None\<close>.
\<close>

function for_u32 :: "nat \<Rightarrow> nat \<Rightarrow> (nat \<Rightarrow> 's \<Rightarrow> 's option) \<Rightarrow> 's \<Rightarrow> 's option" where
  "for_u32 i hi body s =
     (if i \<le> hi
      then (case body i s of None \<Rightarrow> None | Some s' \<Rightarrow> for_u32 (i + 1) hi body s')
      else Some s)"
  by pat_completeness auto
termination
  by (relation "measure (\<lambda>(i, hi, body, s). Suc hi - i)") auto

declare for_u32.simps [simp del]

subsection \<open>The class and its constants\<close>

record EGM96 =
  drts :: darray
  dirt :: darray

definition coeffsCount :: u32 where
  "coeffsCount = 65342"

definition maxDeg :: u32 where
  "maxDeg = 360"

definition WGS84GravitationalConstant :: real where
  "WGS84GravitationalConstant = 0.3986004418 * 10 ^ 15"

definition WGS84DatumSurfaceEquatorialRadius :: real where
  "WGS84DatumSurfaceEquatorialRadius = 6378137.0"

text \<open>
  \<^verbatim>\<open>M_PI\<close> is a macro of \<^verbatim>\<open><cmath>\<close>, not of the repository: the two functions that use
  it take its value as the parameter \<open>M_PI\<close>. The value the macro has is the double
  nearest to \<open>\<pi>\<close>, which is \<open>884279719003555 / 2\<^sup>4\<^sup>8 = 3.141592653589793116\<close> and lies
  below \<open>\<pi>\<close>.
\<close>

definition M_PI_double :: real where
  "M_PI_double = 884279719003555 / 281474976710656"

subsection \<open>The constructor\<close>

text \<open>
  \<^verbatim>\<open>EGM96()\<close>, lines 34-41: one pass over \<open>n = 1..2 * maxDeg + 1\<close> that assigns
  \<^verbatim>\<open>drts[n]\<close> and then reads it back for \<^verbatim>\<open>dirt[n]\<close>. Both members have 1301 elements.
\<close>

definition EGM96_ctor_step :: "u32 \<Rightarrow> EGM96 \<Rightarrow> EGM96 option" where
  "EGM96_ctor_step n self = do {
     d \<leftarrow> wr 1301 (drts self) n (sqrt (real n));
     let self = self\<lparr>drts := d\<rparr>;
     x \<leftarrow> rd (drts self) n;
     r \<leftarrow> wr 1301 (dirt self) n (1 / x);
     Some (self\<lparr>dirt := r\<rparr>)
   }"

definition EGM96_ctor :: "EGM96 \<Rightarrow> EGM96 option" where
  "EGM96_ctor self =
     (let nmax2p = (2 * maxDeg) + 1
      in for_u32 1 nmax2p EGM96_ctor_step self)"

text \<open>A new object: the constructor run on storage no element of which is assigned.\<close>

definition EGM96_new :: "EGM96 option" where
  "EGM96_new = EGM96_ctor \<lparr>drts = Map.empty, dirt = Map.empty\<rparr>"

subsection \<open>Harmonic synthesis\<close>

text \<open>
  \<^verbatim>\<open>calculateGravitationalUndulation\<close>, lines 60-88. \<open>order_step\<close> is the body of the
  inner loop over \<open>m\<close> (lines 74-78) on the variables \<open>(k, sum, sumc)\<close>, \<open>degree_step\<close>
  the body of the outer loop over \<open>n\<close> (lines 68-81) on \<open>(arn, k, ac, a)\<close>. The source's
  \<^verbatim>\<open>sum\<close> is written \<open>sumh\<close>.
\<close>

fun order_step ::
  "(nat \<Rightarrow> nat \<Rightarrow> real) \<Rightarrow> darray \<Rightarrow> darray \<Rightarrow> darray \<Rightarrow> u32 \<Rightarrow>
   u32 \<times> real \<times> real \<Rightarrow> (u32 \<times> real \<times> real) option" where
  "order_step egm96Data p sinml cosml m (k, sumh, sumc) = do {
     let k = k + 1;
     c \<leftarrow> rd cosml m;
     s \<leftarrow> rd sinml m;
     let tempc = egm96Data k 0 * c + egm96Data k 1 * s;
     let temp = egm96Data k 2 * c + egm96Data k 3 * s;
     pk \<leftarrow> rd p k;
     let sumc = sumc + pk * tempc;
     let sumh = sumh + pk * temp;
     Some (k, sumh, sumc)
   }"

fun degree_step ::
  "(nat \<Rightarrow> nat \<Rightarrow> real) \<Rightarrow> darray \<Rightarrow> darray \<Rightarrow> darray \<Rightarrow> real \<Rightarrow> u32 \<Rightarrow>
   real \<times> u32 \<times> real \<times> real \<Rightarrow> (real \<times> u32 \<times> real \<times> real) option" where
  "degree_step egm96Data p sinml cosml ar n (arn, k, ac, a) = do {
     let arn = arn * ar;
     let k = k + 1;
     pk \<leftarrow> rd p k;
     let sumh = pk * egm96Data k 2;
     let sumc = pk * egm96Data k 0;
     (k, sumh, sumc) \<leftarrow> for_u32 1 n (order_step egm96Data p sinml cosml) (k, sumh, sumc);
     let ac = ac + sumc;
     let a = a + sumh * arn;
     Some (arn, k, ac, a)
   }"

definition calculateGravitationalUndulation ::
  "(nat \<Rightarrow> nat \<Rightarrow> real) \<Rightarrow> darray \<Rightarrow> darray \<Rightarrow> darray \<Rightarrow> real \<Rightarrow> real \<Rightarrow> real option" where
  "calculateGravitationalUndulation egm96Data p sinml cosml gr re = do {
     let ar = WGS84DatumSurfaceEquatorialRadius / re;
     let arn = ar;
     let ac = 0;
     let a = 0;
     let k = 3;
     (arn, k, ac, a) \<leftarrow>
       for_u32 2 maxDeg (degree_step egm96Data p sinml cosml ar) (arn, k, ac, a);
     p2 \<leftarrow> rd p 2;
     p3 \<leftarrow> rd p 3;
     c1 \<leftarrow> rd cosml 1;
     s1 \<leftarrow> rd sinml 1;
     let ac = ac + (egm96Data 1 0 + (p2 * egm96Data 2 0)
                    + (p3 * (egm96Data 3 0 * c1 + egm96Data 3 1 * s1)));
     Some (((a * WGS84GravitationalConstant) / (gr * re)) + (ac / 100.0) - 0.53)
   }"

subsection \<open>The longitude series\<close>

text \<open>
  \<^verbatim>\<open>computeTrigonometricSeriesForLongitude\<close>, lines 90-103; both arrays have
  \<open>maxDeg + 2\<close> elements.
\<close>

fun trig_step :: "real \<Rightarrow> u32 \<Rightarrow> darray \<times> darray \<Rightarrow> (darray \<times> darray) option" where
  "trig_step b m (sinml, cosml) = do {
     s1 \<leftarrow> rd sinml (m - 1);
     s2 \<leftarrow> rd sinml (m - 2);
     sinml \<leftarrow> wr (maxDeg + 2) sinml m (2 * b * s1 - s2);
     c1 \<leftarrow> rd cosml (m - 1);
     c2 \<leftarrow> rd cosml (m - 2);
     cosml \<leftarrow> wr (maxDeg + 2) cosml m (2 * b * c1 - c2);
     Some (sinml, cosml)
   }"

definition computeTrigonometricSeriesForLongitude ::
  "real \<Rightarrow> darray \<Rightarrow> darray \<Rightarrow> (darray \<times> darray) option" where
  "computeTrigonometricSeriesForLongitude rlon sinml cosml = do {
     let a = sin rlon;
     let b = cos rlon;
     sinml \<leftarrow> wr (maxDeg + 2) sinml 1 a;
     cosml \<leftarrow> wr (maxDeg + 2) cosml 1 b;
     sinml \<leftarrow> wr (maxDeg + 2) sinml 2 (2 * b * a);
     cosml \<leftarrow> wr (maxDeg + 2) cosml 2 (2 * b * b - 1);
     for_u32 3 maxDeg (trig_step b) (sinml, cosml)
   }"

subsection \<open>The Legendre recursion\<close>

text \<open>
  \<^verbatim>\<open>computeNormalizedLegendreFunctions\<close>, lines 114-158. \<open>rlnn\<close> is the local array,
  unassigned at entry; \<open>rleg\<close> is the caller's buffer and keeps whatever it held.
  \<open>sectoral_step\<close> is the body of the loop of lines 128-132, \<open>switch_m\<close> the
  \<^verbatim>\<open>switch (m)\<close> of lines 134-143 (case 1, case 0, no default), \<open>recurrence_step\<close>
  the body of the loop of lines 149-155 with its \<^verbatim>\<open>continue\<close>.
\<close>

definition sectoral_step :: "EGM96 \<Rightarrow> real \<Rightarrow> u32 \<Rightarrow> darray \<Rightarrow> darray option" where
  "sectoral_step self sithet n1 rlnn = do {
     let n = n1 - 1;
     let n2 = 2 * n;
     a \<leftarrow> rd (drts self) (n2 + 1);
     b \<leftarrow> rd (dirt self) n2;
     c \<leftarrow> rd rlnn n;
     wr (maxDeg + 2) rlnn n1 (a * b * sithet * c)
   }"

definition recurrence_step :: "EGM96 \<Rightarrow> u32 \<Rightarrow> real \<Rightarrow> u32 \<Rightarrow> darray \<Rightarrow> darray option" where
  "recurrence_step self m cothet n1 rleg =
     (let n = n1 - 1 in
      if (m = 0 \<and> n < 2) \<or> (m = 1 \<and> n < 3) then Some rleg
      else do {
        let n2 = 2 * n;
        a \<leftarrow> rd (drts self) (n2 + 1);
        b \<leftarrow> rd (dirt self) (n + m);
        c \<leftarrow> rd (dirt self) (n - m);
        d \<leftarrow> rd (drts self) (n2 - 1);
        r1 \<leftarrow> rd rleg (n1 - 1);
        e \<leftarrow> rd (drts self) (n + m - 1);
        f \<leftarrow> rd (drts self) (n - m - 1);
        g \<leftarrow> rd (dirt self) (n2 - 3);
        r2 \<leftarrow> rd rleg (n1 - 2);
        wr (maxDeg + 2) rleg n1 (a * b * c * (d * cothet * r1 - e * f * g * r2))
      })"

definition switch_m :: "EGM96 \<Rightarrow> u32 \<Rightarrow> real \<Rightarrow> darray \<Rightarrow> darray \<Rightarrow> darray option" where
  "switch_m self m cothet rlnn rleg =
     (if m = 1 then do {
        x \<leftarrow> rd rlnn 2;
        rleg \<leftarrow> wr (maxDeg + 2) rleg 2 x;
        d5 \<leftarrow> rd (drts self) 5;
        y \<leftarrow> rd rleg 2;
        wr (maxDeg + 2) rleg 3 (d5 * cothet * y)
      } else if m = 0 then do {
        rleg \<leftarrow> wr (maxDeg + 2) rleg 1 1;
        d3 \<leftarrow> rd (drts self) 3;
        wr (maxDeg + 2) rleg 2 (cothet * d3)
      } else Some rleg)"

definition computeNormalizedLegendreFunctions ::
  "EGM96 \<Rightarrow> u32 \<Rightarrow> real \<Rightarrow> darray \<Rightarrow> darray option" where
  "computeNormalizedLegendreFunctions self m theta rleg = do {
     let rlnn = Map.empty;
     let nmax1 = maxDeg + 1;
     let m1 = m + 1;
     let m2 = m + 2;
     let m3 = m + 3;
     let cothet = cos theta;
     let sithet = sin theta;
     rlnn \<leftarrow> wr (maxDeg + 2) rlnn 1 1;
     d3 \<leftarrow> rd (drts self) 3;
     rlnn \<leftarrow> wr (maxDeg + 2) rlnn 2 (sithet * d3);
     rlnn \<leftarrow> for_u32 3 m1 (sectoral_step self sithet) rlnn;
     rleg \<leftarrow> switch_m self m cothet rlnn rleg;
     x \<leftarrow> rd rlnn m1;
     rleg \<leftarrow> wr (maxDeg + 2) rleg m1 x;
     if m2 \<le> nmax1 then do {
       d \<leftarrow> rd (drts self) (m1 * 2 + 1);
       y \<leftarrow> rd rleg m1;
       rleg \<leftarrow> wr (maxDeg + 2) rleg m2 (d * cothet * y);
       if m3 \<le> nmax1 then for_u32 m3 nmax1 (recurrence_step self m cothet) rleg
       else Some rleg
     } else Some rleg
   }"

subsection \<open>Ellipsoid metrics\<close>

text \<open>
  \<^verbatim>\<open>computeGeocentricMetrics\<close>, lines 171-186; the three out-parameters are returned
  as the triple \<open>(rlat, gr, re)\<close>.
\<close>

definition computeGeocentricMetrics :: "real \<Rightarrow> real \<Rightarrow> real \<times> real \<times> real" where
  "computeGeocentricMetrics lat lon =
     (let a = 6378137.0;
          e2 = 0.00669437999013;
          geqt = 9.7803253359;
          k = 0.00193185265246;
          t1 = sin lat * sin lat;
          n = a / sqrt (1.0 - (e2 * t1));
          t2 = n * cos lat;
          x = t2 * cos lon;
          y = t2 * sin lon;
          z = (n * (1 - e2)) * sin lat;
          re = sqrt ((x * x) + (y * y) + (z * z));
          rlat = arctan (z / sqrt ((x * x) + (y * y)));
          gr = geqt * (1 + (k * t1)) / sqrt (1 - (e2 * t1))
      in (rlat, gr, re))"

subsection \<open>The query\<close>

text \<open>
  The packed index of line 208, \<^verbatim>\<open>(((i - 1) * i) / 2) + m + 1\<close>, with integer division:
  the spec's \<open>idx(n, m)\<close>, called with \<open>i\<close> for \<open>n\<close>.
\<close>

definition idx :: "u32 \<Rightarrow> u32 \<Rightarrow> u32" where
  "idx n m = (((n - 1) * n) div 2) + m + 1"

text \<open>
  \<^verbatim>\<open>calculateGeoidUndulationAtCoordinates\<close>, lines 194-213. \<open>scatter_step\<close> is the body
  of the loop over \<open>i\<close> (line 208), \<open>order_fill\<close> the body of the loop over \<open>j\<close>
  (lines 205-209) on the arrays \<open>(p, rleg)\<close>. The four local arrays are unassigned
  at entry.
\<close>

definition scatter_step :: "darray \<Rightarrow> u32 \<Rightarrow> u32 \<Rightarrow> darray \<Rightarrow> darray option" where
  "scatter_step rleg m i p = do {
     v \<leftarrow> rd rleg i;
     wr coeffsCount p (idx i m) v
   }"

fun order_fill :: "EGM96 \<Rightarrow> real \<Rightarrow> u32 \<Rightarrow> darray \<times> darray \<Rightarrow> (darray \<times> darray) option" where
  "order_fill self rlat j (p, rleg) = do {
     let nmax1 = maxDeg + 1;
     let m = j - 1;
     rleg \<leftarrow> computeNormalizedLegendreFunctions self m rlat rleg;
     p \<leftarrow> for_u32 j nmax1 (scatter_step rleg m) p;
     Some (p, rleg)
   }"

definition calculateGeoidUndulationAtCoordinates ::
  "real \<Rightarrow> EGM96 \<Rightarrow> (nat \<Rightarrow> nat \<Rightarrow> real) \<Rightarrow> real \<Rightarrow> real \<Rightarrow> real option" where
  "calculateGeoidUndulationAtCoordinates M_PI self egm96Data lat lon = do {
     let p = Map.empty;
     let sinml = Map.empty;
     let cosml = Map.empty;
     let rleg = Map.empty;
     let nmax1 = maxDeg + 1;
     let (rlat, gr, re) = computeGeocentricMetrics lat lon;
     let rlat = (M_PI / 2) - rlat;
     (p, rleg) \<leftarrow> for_u32 1 nmax1 (order_fill self rlat) (p, rleg);
     (sinml, cosml) \<leftarrow> computeTrigonometricSeriesForLongitude lon sinml cosml;
     calculateGravitationalUndulation egm96Data p sinml cosml gr re
   }"

text \<open>
  \<^verbatim>\<open>egm96ComputeAltitudeOffset\<close>, lines 49-52, the public entry point: it returns the
  \<^verbatim>\<open>double\<close> of the call, and has no other exit.
\<close>

definition egm96ComputeAltitudeOffset ::
  "real \<Rightarrow> EGM96 \<Rightarrow> (nat \<Rightarrow> nat \<Rightarrow> real) \<Rightarrow> real \<Rightarrow> real \<Rightarrow> real option" where
  "egm96ComputeAltitudeOffset M_PI self egm96Data lat lon =
     (let rad = (180.0 / M_PI)
      in calculateGeoidUndulationAtCoordinates M_PI self egm96Data (lat / rad) (lon / rad))"

subsection \<open>Closed forms used in the statements\<close>

text \<open>The triangular number \<open>n (n + 1) / 2\<close>: the value of the counter \<open>k\<close> before degree \<open>n\<close>.\<close>

definition tri :: "nat \<Rightarrow> nat" where
  "tri n = (n * (n + 1)) div 2"

text \<open>
  The tables after the constructor has run the iterations \<open>1..i - 1\<close>, and the
  finished tables: \<open>drts n = \<surd>n\<close> and \<open>dirt n = 1 / \<surd>n\<close> on \<open>1..721\<close>, nothing else
  assigned.
\<close>

definition tables_below :: "nat \<Rightarrow> EGM96" where
  "tables_below i =
     \<lparr>drts = (\<lambda>n. if 1 \<le> n \<and> n < i then Some (sqrt (real n)) else None),
      dirt = (\<lambda>n. if 1 \<le> n \<and> n < i then Some (1 / sqrt (real n)) else None)\<rparr>"

definition built_tables :: EGM96 where
  "built_tables = tables_below 722"

text \<open>
  The value the sectoral loop leaves in \<^verbatim>\<open>rlnn[k]\<close>, \<open>k \<ge> 1\<close> (index \<open>0\<close> is never
  assigned; the equation for it only makes the function total), and the value the
  recursion leaves in \<^verbatim>\<open>rleg[m + 1 + d]\<close>, the entry of order \<open>m\<close> and degree \<open>m + d\<close>.
\<close>

fun rlnn_val :: "real \<Rightarrow> nat \<Rightarrow> real" where
  "rlnn_val theta 0 = 0"
| "rlnn_val theta (Suc 0) = 1"
| "rlnn_val theta (Suc (Suc 0)) = sin theta * sqrt 3"
| "rlnn_val theta (Suc (Suc (Suc k))) =
     sqrt (real (2 * (k + 2) + 1)) * (1 / sqrt (real (2 * (k + 2)))) * sin theta
       * rlnn_val theta (Suc (Suc k))"

fun rleg_val :: "real \<Rightarrow> nat \<Rightarrow> nat \<Rightarrow> real" where
  "rleg_val theta m 0 = rlnn_val theta (m + 1)"
| "rleg_val theta m (Suc 0) = sqrt (real ((m + 1) * 2 + 1)) * cos theta * rleg_val theta m 0"
| "rleg_val theta m (Suc (Suc d)) =
     (let n = m + d + 2 in
      sqrt (real (2 * n + 1)) * (1 / sqrt (real (n + m))) * (1 / sqrt (real (n - m)))
        * (sqrt (real (2 * n - 1)) * cos theta * rleg_val theta m (Suc d)
           - sqrt (real (n + m - 1)) * sqrt (real (n - m - 1)) * (1 / sqrt (real (2 * n - 3)))
               * rleg_val theta m d))"

text \<open>The arrays \<^verbatim>\<open>rlnn\<close> and \<^verbatim>\<open>rleg\<close> before the iteration \<open>i\<close> of their loops.\<close>

definition rlnn_below :: "real \<Rightarrow> nat \<Rightarrow> darray" where
  "rlnn_below theta i = (\<lambda>k. if 1 \<le> k \<and> k < i then Some (rlnn_val theta k) else None)"

definition rleg_below :: "real \<Rightarrow> nat \<Rightarrow> darray \<Rightarrow> nat \<Rightarrow> darray" where
  "rleg_below theta m rleg i =
     (\<lambda>k. if m + 1 \<le> k \<and> k < i then Some (rleg_val theta m (k - (m + 1))) else rleg k)"

text \<open>
  The variables of the two synthesis loops before the iteration \<open>i\<close>, for arrays that
  hold \<open>P\<close>, \<open>S\<close> and \<open>C\<close>; \<open>degree_sum\<close> is the sum one degree adds, over the
  coefficient columns \<open>cc\<close> and \<open>cs\<close>.
\<close>

definition order_below ::
  "(nat \<Rightarrow> nat \<Rightarrow> real) \<Rightarrow> (nat \<Rightarrow> real) \<Rightarrow> (nat \<Rightarrow> real) \<Rightarrow> (nat \<Rightarrow> real) \<Rightarrow>
   nat \<Rightarrow> real \<Rightarrow> real \<Rightarrow> nat \<Rightarrow> nat \<times> real \<times> real" where
  "order_below D P S C k0 s sc i =
     (k0 + (i - 1),
      s + (\<Sum>m = 1..<i. P (k0 + m) * (D (k0 + m) 2 * C m + D (k0 + m) 3 * S m)),
      sc + (\<Sum>m = 1..<i. P (k0 + m) * (D (k0 + m) 0 * C m + D (k0 + m) 1 * S m)))"

definition degree_sum ::
  "(nat \<Rightarrow> nat \<Rightarrow> real) \<Rightarrow> (nat \<Rightarrow> real) \<Rightarrow> (nat \<Rightarrow> real) \<Rightarrow> (nat \<Rightarrow> real) \<Rightarrow>
   nat \<Rightarrow> nat \<Rightarrow> nat \<Rightarrow> real" where
  "degree_sum D P S C cc cs n =
     P (tri n + 1) * D (tri n + 1) cc
     + (\<Sum>m = 1..n. P (tri n + m + 1) * (D (tri n + m + 1) cc * C m + D (tri n + m + 1) cs * S m))"

definition degree_below ::
  "(nat \<Rightarrow> nat \<Rightarrow> real) \<Rightarrow> (nat \<Rightarrow> real) \<Rightarrow> (nat \<Rightarrow> real) \<Rightarrow> (nat \<Rightarrow> real) \<Rightarrow>
   real \<Rightarrow> nat \<Rightarrow> real \<times> nat \<times> real \<times> real" where
  "degree_below D P S C ar n =
     (ar ^ (n - 1), tri n,
      (\<Sum>d = 2..<n. degree_sum D P S C 0 1 d),
      (\<Sum>d = 2..<n. degree_sum D P S C 2 3 d * ar ^ d))"

text \<open>
  The arrays \<^verbatim>\<open>sinml\<close> and \<^verbatim>\<open>cosml\<close> before the iteration \<open>i\<close> of the loop of lines
  99-102: \<open>sin (m rlon)\<close> and \<open>cos (m rlon)\<close> at the indices \<open>1..i - 1\<close>.
\<close>

definition trig_below :: "real \<Rightarrow> nat \<Rightarrow> darray \<times> darray" where
  "trig_below rlon i =
     ((\<lambda>m. if 1 \<le> m \<and> m < i then Some (sin (real m * rlon)) else None),
      (\<lambda>m. if 1 \<le> m \<and> m < i then Some (cos (real m * rlon)) else None))"

text \<open>
  The array \<^verbatim>\<open>p\<close> before the iteration \<open>i\<close> of the loop of line 207 within the iteration
  \<open>j\<close> of the loop of line 204: nothing is assigned outside \<open>1..65341\<close>, the orders
  below \<open>j - 1\<close> are stored at all their degrees, and the order \<open>j - 1\<close> at the indices
  below \<open>i\<close>.
\<close>

definition p_filled :: "real \<Rightarrow> nat \<Rightarrow> nat \<Rightarrow> darray \<Rightarrow> bool" where
  "p_filled theta j i p \<longleftrightarrow>
     dom p \<subseteq> {1..65341} \<and>
     (\<forall>m' i'. m' < i' \<and> i' \<le> 361 \<and> (m' + 1 < j \<or> (m' + 1 = j \<and> i' < i))
        \<longrightarrow> p (idx i' m') = Some (rleg_val theta m' (i' - (m' + 1))))"

text \<open>
  The terms \<open>x\<^bsup>2 n + 1\<^esup> / (2 n + 1)\<close> of the series of \<open>arctan x\<close>, used to place the value
  of \<^verbatim>\<open>M_PI\<close> below \<open>\<pi>\<close>.
\<close>

definition arctan_term :: "real \<Rightarrow> nat \<Rightarrow> real" where
  "arctan_term x n = 1 / real (n * 2 + 1) * x ^ (n * 2 + 1)"

text \<open>
  The result of a query in closed form. \<open>legendre_sum\<close> is the sum the synthesis adds
  for the degree \<open>n\<close> over the coefficient columns \<open>cc\<close> and \<open>cs\<close>, with the Legendre
  value of order \<open>m\<close> and degree \<open>n\<close> against the table's row \<open>n (n + 1) / 2 + m + 1\<close>
  and \<open>cos (m rlon)\<close>, \<open>sin (m rlon)\<close>; \<open>undulation_closed\<close> is the value line 87
  returns from these sums, the colatitude \<open>theta\<close>, the longitude \<open>rlon\<close>, \<open>gr\<close> and
  \<open>re\<close>.
\<close>

definition legendre_sum ::
  "(nat \<Rightarrow> nat \<Rightarrow> real) \<Rightarrow> real \<Rightarrow> real \<Rightarrow> nat \<Rightarrow> nat \<Rightarrow> nat \<Rightarrow> real" where
  "legendre_sum D theta rlon cc cs n =
     rleg_val theta 0 n * D (n * (n + 1) div 2 + 1) cc
     + (\<Sum>m = 1..n. rleg_val theta m (n - m)
          * (D (n * (n + 1) div 2 + m + 1) cc * cos (real m * rlon)
             + D (n * (n + 1) div 2 + m + 1) cs * sin (real m * rlon)))"

definition undulation_closed ::
  "(nat \<Rightarrow> nat \<Rightarrow> real) \<Rightarrow> real \<Rightarrow> real \<Rightarrow> real \<Rightarrow> real \<Rightarrow> real" where
  "undulation_closed D theta rlon gr re =
     (let a = (\<Sum>n = 2..360. legendre_sum D theta rlon 2 3 n * (6378137.0 / re) ^ n);
          ac = (\<Sum>n = 2..360. legendre_sum D theta rlon 0 1 n)
               + (D 1 0 + rleg_val theta 0 1 * D 2 0
                  + rleg_val theta 1 0 * (D 3 0 * cos rlon + D 3 1 * sin rlon))
      in (a * 398600441800000) / (gr * re) + ac / 100 - 0.53)"

text \<open>
  Subtraction in \<^verbatim>\<open>u32\<close>, with its wrap-around, on operands below \<open>2\<^sup>3\<^sup>2\<close>: where the
  right operand does not exceed the left one it is the subtraction of \<open>nat\<close>.
\<close>

definition sub_u32 :: "nat \<Rightarrow> nat \<Rightarrow> nat" where
  "sub_u32 a b = (a + 2 ^ 32 - b) mod 2 ^ 32"

section \<open>The counted loop\<close>

lemma for_u32_empty: "hi < lo \<Longrightarrow> for_u32 lo hi body s = Some s"
  by (simp add: for_u32.simps)

lemma for_u32_rule_from:
  assumes step: "\<And>i s. lo \<le> i \<Longrightarrow> i \<le> hi \<Longrightarrow> I i s \<Longrightarrow> \<exists>s'. body i s = Some s' \<and> I (Suc i) s'"
  shows "lo \<le> j \<Longrightarrow> j \<le> Suc hi \<Longrightarrow> I j s \<Longrightarrow> \<exists>s'. for_u32 j hi body s = Some s' \<and> I (Suc hi) s'"
proof (induction "Suc hi - j" arbitrary: j s)
  case 0
  then have "j = Suc hi" by simp
  then show ?case using "0.prems" by (simp add: for_u32.simps)
next
  case (Suc d)
  then have le: "j \<le> hi" by simp
  obtain s1 where s1: "body j s = Some s1" "I (Suc j) s1"
    using step[OF Suc.prems(1) le Suc.prems(3)] by blast
  have "d = Suc hi - Suc j" using Suc.hyps(2) by simp
  from Suc.hyps(1)[OF this _ _ s1(2)] le Suc.prems(1)
  obtain s' where "for_u32 (Suc j) hi body s1 = Some s'" "I (Suc hi) s'" by auto
  then show ?case using le s1 by (subst for_u32.simps) simp
qed

text \<open>
  The invariant rule: \<open>I i s\<close> holds of the state \<open>s\<close> before the iteration \<open>i\<close>, every
  iteration in range succeeds and hands the invariant on, so the loop succeeds and
  \<open>I (hi + 1)\<close> holds of its final state.
\<close>

lemma for_u32_rule:
  assumes init: "I lo s"
    and le: "lo \<le> Suc hi"
    and step: "\<And>i s. lo \<le> i \<Longrightarrow> i \<le> hi \<Longrightarrow> I i s \<Longrightarrow> \<exists>s'. body i s = Some s' \<and> I (Suc i) s'"
  shows "\<exists>s'. for_u32 lo hi body s = Some s' \<and> I (Suc hi) s'"
  using for_u32_rule_from[where I=I and body=body, OF step _ le init] by simp

section \<open>The packed index\<close>

lemma tri_0: "tri 0 = 0"
  by (simp add: tri_def)

lemma tri_Suc: "tri (Suc n) = tri n + Suc n"
proof -
  have "Suc n * (Suc n + 1) = n * (n + 1) + 2 * Suc n" by simp
  then have "tri (Suc n) = (n * (n + 1) + 2 * Suc n) div 2" by (simp only: tri_def)
  also have "\<dots> = tri n + Suc n" unfolding tri_def by simp
  finally show ?thesis .
qed

lemma tri_mono: "n \<le> k \<Longrightarrow> tri n \<le> tri k"
  by (induction k) (auto simp: tri_Suc le_Suc_eq)

lemma tri_361: "tri 361 = 65341"
  by (simp add: tri_def)

lemma tri_360: "tri 360 = 64980"
  by (simp add: tri_def)

lemma idx_Suc: "idx (Suc n) m = tri n + m + 1"
  by (simp add: idx_def tri_def)

lemma idx_less:
  assumes "m < n" "m' < n'" "n < n'"
  shows "idx n m < idx n' m'"
proof -
  obtain a where a: "n = Suc a" using assms(1) by (cases n) auto
  obtain b where b: "n' = Suc b" using assms(2) by (cases n') auto
  have "Suc a \<le> b" using assms(3) a b by simp
  then have "tri (Suc a) \<le> tri b" by (rule tri_mono)
  then show ?thesis using assms(1) by (simp add: a b idx_Suc tri_Suc)
qed

lemma idx_inj:
  assumes "m < n" "m' < n'" "idx n m = idx n' m'"
  shows "n = n' \<and> m = m'"
proof -
  have "\<not> n < n'" using idx_less[OF assms(1,2)] assms(3) by auto
  moreover have "\<not> n' < n" using idx_less[OF assms(2,1)] assms(3) by auto
  ultimately have "n = n'" by simp
  then show ?thesis using assms(3) by (simp add: idx_def)
qed

lemma idx_image: "(\<lambda>(n, m). idx n m) ` {(n, m). m < n \<and> n \<le> N} = {1..tri N}"
proof (induction N)
  case 0
  then show ?case by (simp add: tri_0)
next
  case (Suc N)
  have split: "{(n, m). m < n \<and> n \<le> Suc N}
      = {(n, m). m < n \<and> n \<le> N} \<union> (\<lambda>m. (Suc N, m)) ` {0..N}"
    by (auto simp: le_Suc_eq)
  have "(\<lambda>(n, m). idx n m) ` ((\<lambda>m. (Suc N, m)) ` {0..N}) = (\<lambda>m. tri N + m + 1) ` {0..N}"
    by (simp add: image_image idx_Suc)
  also have "\<dots> = {tri N + 1..tri N + Suc N}"
  proof (intro set_eqI iffI)
    fix k assume "k \<in> {tri N + 1..tri N + Suc N}"
    then have "k = tri N + (k - tri N - 1) + 1" "k - tri N - 1 \<in> {0..N}" by auto
    then show "k \<in> (\<lambda>m. tri N + m + 1) ` {0..N}" by (rule image_eqI)
  qed auto
  finally have img: "(\<lambda>(n, m). idx n m) ` ((\<lambda>m. (Suc N, m)) ` {0..N})
      = {tri N + 1..tri N + Suc N}" .
  have "(\<lambda>(n, m). idx n m) ` {(n, m). m < n \<and> n \<le> Suc N}
      = {1..tri N} \<union> {tri N + 1..tri N + Suc N}"
    unfolding split image_Un Suc.IH img ..
  also have "\<dots> = {1..tri (Suc N)}"
    unfolding tri_Suc by auto
  finally show ?case .
qed

lemma idx_bij: "bij_betw (\<lambda>(n, m). idx n m) {(n, m). m < n \<and> n \<le> N} {1..tri N}"
  unfolding bij_betw_def
proof
  show "inj_on (\<lambda>(n, m). idx n m) {(n, m). m < n \<and> n \<le> N}"
    by (auto simp: inj_on_def dest: idx_inj)
  show "(\<lambda>(n, m). idx n m) ` {(n, m). m < n \<and> n \<le> N} = {1..tri N}"
    by (rule idx_image)
qed

lemma idx_shift: "1 \<le> m \<Longrightarrow> idx n m = Suc (idx n (m - 1))"
  by (simp add: idx_def)

text \<open>
  C3, as stated, fails: on the pairs \<open>1 \<le> m \<le> n \<le> 360\<close> the index map never takes
  the value \<open>1\<close> (nor any value above \<open>64981\<close>), so it is not onto \<open>1..65341\<close>.
\<close>

theorem idx_not_onto_1_65341:
  "\<not> bij_betw (\<lambda>(n, m). idx n m) {(n, m). 1 \<le> m \<and> m \<le> n \<and> n \<le> 360} {1..65341}"
proof
  assume "bij_betw (\<lambda>(n, m). idx n m) {(n, m). 1 \<le> m \<and> m \<le> n \<and> n \<le> 360} {1..65341}"
  then have "(\<lambda>(n, m). idx n m) ` {(n, m). 1 \<le> m \<and> m \<le> n \<and> n \<le> 360} = {1..65341}"
    by (simp add: bij_betw_def)
  moreover have "(1::nat) \<in> {1..65341}" by simp
  ultimately have "1 \<in> (\<lambda>(n, m). idx n m) ` {(n, m). 1 \<le> m \<and> m \<le> n \<and> n \<le> 360}"
    by (rule ssubst)
  then obtain x where x: "x \<in> {(n, m). 1 \<le> m \<and> m \<le> n \<and> n \<le> (360::nat)}"
    "1 = (\<lambda>(n, m). idx n m) x" by (rule imageE)
  obtain n m where nm: "x = (n, m)" by (cases x)
  from x show False unfolding nm by (simp add: idx_def)
qed

text \<open>
  C3 (amended). On the pairs \<open>1 \<le> m \<le> n \<le> 360\<close> the index map
  \<open>idx(n, m) = ((n - 1) n) / 2 + m + 1\<close> is a bijection onto \<open>2..64981\<close>: its values are
  pairwise distinct and lie within \<open>1..65341\<close>. It is a bijection onto \<open>1..65341\<close> on
  the pairs the scatter loop of line 208 stores at, \<open>0 \<le> m < n \<le> 361\<close>, where \<open>n\<close> is
  the degree plus one.
\<close>

theorem idx_bijection:
  "bij_betw (\<lambda>(n, m). idx n m) {(n, m). 1 \<le> m \<and> m \<le> n \<and> n \<le> 360} {2..64981}
   \<and> bij_betw (\<lambda>(n, m). idx n m) {(n, m). m < n \<and> n \<le> 361} {1..65341}"
proof
  let ?A = "{(n, m). 1 \<le> m \<and> m \<le> n \<and> n \<le> (360::nat)}"
  let ?B = "{(n, m). m < n \<and> n \<le> (360::nat)}"
  have inj: "inj_on (\<lambda>(n, m). idx n m) ?A"
  proof (clarsimp simp: inj_on_def)
    fix n m n' m' :: nat
    assume a: "Suc 0 \<le> m" "m \<le> n" "Suc 0 \<le> m'" "m' \<le> n'" "idx n m = idx n' m'"
    then have "idx n (m - 1) = idx n' (m' - 1)" by (simp add: idx_shift)
    moreover have "m - 1 < n" "m' - 1 < n'" using a by auto
    ultimately have "n = n' \<and> m - 1 = m' - 1" by (rule_tac idx_inj)
    then show "n = n' \<and> m = m'" using a by auto
  qed
  have A: "?A = (\<lambda>(n, m). (n, Suc m)) ` ?B"
  proof (intro set_eqI iffI)
    fix x assume "x \<in> ?A"
    then obtain n m where x: "x = (n, m)" "1 \<le> m" "m \<le> n" "n \<le> 360" by auto
    then have "x = (\<lambda>(n, m). (n, Suc m)) (n, m - 1)" "(n, m - 1) \<in> ?B" by auto
    then show "x \<in> (\<lambda>(n, m). (n, Suc m)) ` ?B" by (rule image_eqI)
  qed auto
  have "(\<lambda>(n, m). idx n m) ` ?A = Suc ` ((\<lambda>(n, m). idx n m) ` ?B)"
    unfolding A image_image by (rule image_cong) (auto simp: idx_def)
  also have "\<dots> = Suc ` {1..tri 360}" by (simp only: idx_image)
  also have "\<dots> = {Suc 1..Suc (tri 360)}" by (rule image_Suc_atLeastAtMost)
  also have "\<dots> = {2..64981}" unfolding tri_360 by simp
  finally show "bij_betw (\<lambda>(n, m). idx n m) ?A {2..64981}"
    using inj by (simp add: bij_betw_def)
  show "bij_betw (\<lambda>(n, m). idx n m) {(n, m). m < n \<and> n \<le> 361} {1..65341}"
    using idx_bij[of 361] by (simp add: tri_361)
qed

section \<open>Array access\<close>

lemma rd_simp [simp]: "rd a i = a i"
  by (simp add: rd_def)

lemma wr_simp [simp]: "i < len \<Longrightarrow> wr len a i v = Some (a(i \<mapsto> v))"
  by (simp add: wr_def)

section \<open>The constructor builds the tables\<close>

lemma EGM96_ctor_step_below:
  assumes "1 \<le> i" "i \<le> 721"
  shows "EGM96_ctor_step i (tables_below i) = Some (tables_below (Suc i))"
  using assms by (auto simp: EGM96_ctor_step_def tables_below_def fun_eq_iff)

lemma EGM96_new_built: "EGM96_new = Some built_tables"
proof -
  have "\<exists>s'. for_u32 1 721 EGM96_ctor_step (tables_below 1) = Some s' \<and> s' = tables_below (Suc 721)"
    by (rule for_u32_rule[where I="\<lambda>i s. s = tables_below i"])
       (simp_all add: EGM96_ctor_step_below)
  moreover have "tables_below 1 = \<lparr>drts = Map.empty, dirt = Map.empty\<rparr>"
    by (auto simp: tables_below_def fun_eq_iff)
  ultimately show ?thesis
    by (simp add: EGM96_new_def EGM96_ctor_def maxDeg_def built_tables_def)
qed

lemma drts_built: "1 \<le> n \<Longrightarrow> n \<le> 721 \<Longrightarrow> drts built_tables n = Some (sqrt (real n))"
  by (simp add: built_tables_def tables_below_def)

lemma dirt_built: "1 \<le> n \<Longrightarrow> n \<le> 721 \<Longrightarrow> dirt built_tables n = Some (1 / sqrt (real n))"
  by (simp add: built_tables_def tables_below_def)

lemma dom_drts_built: "dom (drts built_tables) = {1..721}"
  by (auto simp: built_tables_def tables_below_def dom_def)

lemma dom_dirt_built: "dom (dirt built_tables) = {1..721}"
  by (auto simp: built_tables_def tables_below_def dom_def)

section \<open>The Legendre recursion on the built tables\<close>

lemma for_u32_closed:
  assumes le: "lo \<le> Suc hi"
    and step: "\<And>i. lo \<le> i \<Longrightarrow> i \<le> hi \<Longrightarrow> body i (F i) = Some (F (Suc i))"
  shows "for_u32 lo hi body (F lo) = Some (F (Suc hi))"
proof -
  have "\<exists>s'. for_u32 lo hi body (F lo) = Some s' \<and> s' = F (Suc hi)"
    by (rule for_u32_rule[where I="\<lambda>i s. s = F i"]) (simp_all add: le step)
  then show ?thesis by blast
qed

lemma rlnn_val_rec:
  "3 \<le> i \<Longrightarrow> rlnn_val theta i =
     sqrt (real (2 * (i - 1) + 1)) * (1 / sqrt (real (2 * (i - 1)))) * sin theta
       * rlnn_val theta (i - 1)"
proof -
  assume "3 \<le> i"
  then obtain k where "i = Suc (Suc (Suc k))"
    by (metis Suc_le_D numeral_3_eq_3 Suc_le_mono le0 not0_implies_Suc not_less_eq_eq)
  then show ?thesis by simp
qed

lemma sectoral_step_below:
  assumes "3 \<le> i" "i \<le> 361"
  shows "sectoral_step built_tables (sin theta) i (rlnn_below theta i)
         = Some (rlnn_below theta (Suc i))"
proof -
  have a: "drts built_tables (2 * (i - 1) + 1) = Some (sqrt (real (2 * (i - 1) + 1)))"
    using assms by (intro drts_built) auto
  have b: "dirt built_tables (2 * (i - 1)) = Some (1 / sqrt (real (2 * (i - 1))))"
    using assms by (intro dirt_built) auto
  have c: "rlnn_below theta i (i - 1) = Some (rlnn_val theta (i - 1))"
    using assms by (simp add: rlnn_below_def)
  have v: "sqrt (real (2 * (i - 1) + 1)) * (1 / sqrt (real (2 * (i - 1)))) * sin theta
       * rlnn_val theta (i - 1) = rlnn_val theta i"
    by (rule rlnn_val_rec[OF assms(1), symmetric])
  have w: "wr (maxDeg + 2) (rlnn_below theta i) i (rlnn_val theta i)
      = Some (rlnn_below theta (Suc i))"
    using assms by (auto simp: wr_def maxDeg_def rlnn_below_def fun_eq_iff)
  show ?thesis
    by (simp only: sectoral_step_def Let_def rd_def a b c v w bind.simps)
qed

lemma sectoral_loop:
  assumes "m \<le> 360"
  shows "for_u32 3 (m + 1) (sectoral_step built_tables (sin theta)) (rlnn_below theta 3)
         = Some (rlnn_below theta (max 3 (m + 2)))"
proof (cases "m + 1 < 3")
  case True
  then have mx: "max 3 (m + 2) = 3" by simp
  show ?thesis unfolding mx using True by (rule for_u32_empty)
next
  case False
  have "for_u32 3 (m + 1) (sectoral_step built_tables (sin theta)) (rlnn_below theta 3)
      = Some (rlnn_below theta (Suc (m + 1)))"
    using False assms by (intro for_u32_closed sectoral_step_below) simp_all
  moreover have "max 3 (m + 2) = Suc (m + 1)" using False by simp
  ultimately show ?thesis by (simp only:)
qed

lemma rleg_val_rec:
  assumes "m + 3 \<le> i"
  shows "rleg_val theta m (i - (m + 1)) =
     sqrt (real (2 * (i - 1) + 1)) * (1 / sqrt (real (i - 1 + m))) * (1 / sqrt (real (i - 1 - m)))
       * (sqrt (real (2 * (i - 1) - 1)) * cos theta * rleg_val theta m (i - 1 - (m + 1))
          - sqrt (real (i - 1 + m - 1)) * sqrt (real (i - 1 - m - 1))
              * (1 / sqrt (real (2 * (i - 1) - 3))) * rleg_val theta m (i - 2 - (m + 1)))"
proof -
  obtain d where i: "i = m + 3 + d" using assms by (metis le_Suc_ex)
  have e: "i - (m + 1) = Suc (Suc d)" "i - 1 - (m + 1) = Suc d" "i - 2 - (m + 1) = d"
    "i - 1 = m + d + 2" "m + d + 2 - (m + 1) = Suc d"
    by (simp_all add: i)
  show ?thesis unfolding e rleg_val.simps Let_def ..
qed

lemma recurrence_step_below:
  assumes "m \<le> 360" "m + 3 \<le> i" "i \<le> 361"
  shows "recurrence_step built_tables m (cos theta) i (rleg_below theta m rleg i)
         = Some (rleg_below theta m rleg (Suc i))"
proof -
  have ns: "((m = 0 \<and> i - 1 < 2) \<or> (m = 1 \<and> i - 1 < 3)) = False"
    using assms by auto
  have a: "drts built_tables (2 * (i - 1) + 1) = Some (sqrt (real (2 * (i - 1) + 1)))"
    using assms by (intro drts_built) auto
  have b: "dirt built_tables (i - 1 + m) = Some (1 / sqrt (real (i - 1 + m)))"
    using assms by (intro dirt_built) auto
  have c: "dirt built_tables (i - 1 - m) = Some (1 / sqrt (real (i - 1 - m)))"
    using assms by (intro dirt_built) auto
  have d: "drts built_tables (2 * (i - 1) - 1) = Some (sqrt (real (2 * (i - 1) - 1)))"
    using assms by (intro drts_built) auto
  have e: "drts built_tables (i - 1 + m - 1) = Some (sqrt (real (i - 1 + m - 1)))"
    using assms by (intro drts_built) auto
  have f: "drts built_tables (i - 1 - m - 1) = Some (sqrt (real (i - 1 - m - 1)))"
    using assms by (intro drts_built) auto
  have g: "dirt built_tables (2 * (i - 1) - 3) = Some (1 / sqrt (real (2 * (i - 1) - 3)))"
    using assms by (intro dirt_built) auto
  have "m + 1 \<le> i - 1 \<and> i - 1 < i" using assms by auto
  then have r1: "rleg_below theta m rleg i (i - 1) = Some (rleg_val theta m (i - 1 - (m + 1)))"
    unfolding rleg_below_def by (rule if_P)
  have "m + 1 \<le> i - 2 \<and> i - 2 < i" using assms by auto
  then have r2: "rleg_below theta m rleg i (i - 2) = Some (rleg_val theta m (i - 2 - (m + 1)))"
    unfolding rleg_below_def by (rule if_P)
  have w: "wr (maxDeg + 2) (rleg_below theta m rleg i) i (rleg_val theta m (i - (m + 1)))
      = Some (rleg_below theta m rleg (Suc i))"
    using assms by (auto simp: wr_def maxDeg_def rleg_below_def fun_eq_iff)
  show ?thesis
    by (simp only: recurrence_step_def Let_def rd_def ns if_False a b c d e f g r1 r2
          bind.simps rleg_val_rec[OF assms(2), symmetric] w)
qed

lemma recurrence_loop:
  assumes "m \<le> 358"
  shows "for_u32 (m + 3) 361 (recurrence_step built_tables m (cos theta))
           (rleg_below theta m rleg (m + 3))
         = Some (rleg_below theta m rleg 362)"
proof -
  have "for_u32 (m + 3) 361 (recurrence_step built_tables m (cos theta))
           (rleg_below theta m rleg (m + 3))
         = Some (rleg_below theta m rleg (Suc 361))"
    using assms by (intro for_u32_closed recurrence_step_below) simp_all
  then show ?thesis by simp
qed

lemma rlnn_below_3: "[1 \<mapsto> 1, 2 \<mapsto> sin theta * sqrt 3] = rlnn_below theta 3"
proof (rule ext)
  fix k :: nat
  consider "k = 0" | "k = 1" | "k = 2" | "3 \<le> k" by linarith
  then show "[1 \<mapsto> 1, 2 \<mapsto> sin theta * sqrt 3] k = rlnn_below theta 3 k"
    by cases (simp_all add: rlnn_below_def numeral_2_eq_2)
qed

lemma switch_m_built:
  assumes "m \<le> 360"
  shows "\<exists>B. switch_m built_tables m (cos theta) (rlnn_below theta (max 3 (m + 2))) rleg = Some B
           \<and> (\<forall>k. k \<noteq> m + 1 \<longrightarrow> k \<noteq> m + 2 \<longrightarrow> B k = rleg k) \<and> (2 \<le> m \<longrightarrow> B = rleg)"
proof -
  consider "m = 1" | "m = 0" | "2 \<le> m" by linarith
  then show ?thesis
  proof cases
    case 1
    have "drts built_tables 5 = Some (sqrt (real 5))" by (intro drts_built) auto
    then show ?thesis using 1
      by (simp add: switch_m_def maxDeg_def rlnn_below_def)
  next
    case 2
    have "drts built_tables 3 = Some (sqrt (real 3))" by (intro drts_built) auto
    then show ?thesis using 2
      by (simp add: switch_m_def maxDeg_def)
  next
    case 3
    then show ?thesis by (simp add: switch_m_def)
  qed
qed

lemma rleg_below_init:
  assumes "\<forall>k. k \<noteq> m + 1 \<longrightarrow> k \<noteq> m + 2 \<longrightarrow> B k = rleg k"
  shows "B(m + 1 \<mapsto> rlnn_val theta (m + 1),
           m + 2 \<mapsto> sqrt (real ((m + 1) * 2 + 1)) * cos theta * rlnn_val theta (m + 1))
         = rleg_below theta m rleg (m + 3)"
proof (rule ext)
  fix k
  consider "k = m + 1" | "k = m + 2" | "k \<noteq> m + 1 \<and> k \<noteq> m + 2" by blast
  then show "(B(m + 1 \<mapsto> rlnn_val theta (m + 1),
           m + 2 \<mapsto> sqrt (real ((m + 1) * 2 + 1)) * cos theta * rlnn_val theta (m + 1))) k
         = rleg_below theta m rleg (m + 3) k"
  proof cases
    case 1 then show ?thesis by (simp add: rleg_below_def)
  next
    case 2 then show ?thesis by (simp add: rleg_below_def)
  next
    case 3 then show ?thesis using assms by (auto simp: rleg_below_def)
  qed
qed

lemma computeNormalizedLegendreFunctions_built:
  assumes "m \<le> 360"
  shows "computeNormalizedLegendreFunctions built_tables m theta rleg
         = Some (rleg_below theta m rleg 362)"
proof -
  let ?R = "rlnn_below theta (max 3 (m + 2))"
  obtain B where B: "switch_m built_tables m (cos theta) ?R rleg = Some B"
    and agree: "\<forall>k. k \<noteq> m + 1 \<longrightarrow> k \<noteq> m + 2 \<longrightarrow> B k = rleg k"
    and same: "2 \<le> m \<longrightarrow> B = rleg"
    using switch_m_built[OF assms] by blast
  have i1: "wr (maxDeg + 2) Map.empty 1 1 = Some [1 \<mapsto> 1]"
    by (simp add: maxDeg_def)
  have d3: "drts built_tables 3 = Some (sqrt 3)"
    using drts_built[of 3] by simp
  have "wr (maxDeg + 2) [1 \<mapsto> 1] 2 (sin theta * sqrt 3)
      = Some [1 \<mapsto> 1, 2 \<mapsto> sin theta * sqrt 3]"
    by (simp add: maxDeg_def)
  then have i2: "wr (maxDeg + 2) [1 \<mapsto> 1] 2 (sin theta * sqrt 3) = Some (rlnn_below theta 3)"
    unfolding rlnn_below_3 .
  have lp: "for_u32 3 (m + 1) (sectoral_step built_tables (sin theta)) (rlnn_below theta 3)
      = Some ?R"
    by (rule sectoral_loop[OF assms])
  have x: "?R (m + 1) = Some (rlnn_val theta (m + 1))"
    by (simp add: rlnn_below_def)
  have w1: "wr (maxDeg + 2) B (m + 1) (rlnn_val theta (m + 1))
      = Some (B(m + 1 \<mapsto> rlnn_val theta (m + 1)))"
    using assms by (simp add: maxDeg_def)
  have y: "(B(m + 1 \<mapsto> rlnn_val theta (m + 1))) (m + 1) = Some (rlnn_val theta (m + 1))"
    by simp
  show ?thesis
  proof (cases "m + 2 \<le> maxDeg + 1")
    case False
    then have m: "m = 360" using assms by (simp add: maxDeg_def)
    have "B(m + 1 \<mapsto> rlnn_val theta (m + 1)) = rleg_below theta m rleg 362"
      using same by (auto simp: m rleg_below_def fun_eq_iff)
    then show ?thesis
      unfolding computeNormalizedLegendreFunctions_def Let_def rd_def
      by (simp only: i1 d3 i2 lp B x w1 False if_False bind.simps)
  next
    case True
    have d: "drts built_tables ((m + 1) * 2 + 1) = Some (sqrt (real ((m + 1) * 2 + 1)))"
      using True by (intro drts_built) (auto simp: maxDeg_def)
    have w2: "wr (maxDeg + 2) (B(m + 1 \<mapsto> rlnn_val theta (m + 1))) (m + 2)
          (sqrt (real ((m + 1) * 2 + 1)) * cos theta * rlnn_val theta (m + 1))
        = Some (rleg_below theta m rleg (m + 3))"
    proof -
      have "m + 2 < maxDeg + 2" using True by simp
      then show ?thesis
        unfolding rleg_below_init[OF agree, of theta, symmetric] by (rule wr_simp)
    qed
    show ?thesis
    proof (cases "m + 3 \<le> maxDeg + 1")
      case False
      then have "m + 3 = 362" using True by (simp add: maxDeg_def)
      then have e: "rleg_below theta m rleg (m + 3) = rleg_below theta m rleg 362"
        by (rule arg_cong)
      show ?thesis
        unfolding computeNormalizedLegendreFunctions_def Let_def rd_def
        by (simp only: i1 d3 i2 lp B x w1 y d w2 True False if_True if_False bind.simps e)
    next
      case m3: True
      then have "m \<le> 358" by (simp add: maxDeg_def)
      then have rl: "for_u32 (m + 3) (maxDeg + 1) (recurrence_step built_tables m (cos theta))
           (rleg_below theta m rleg (m + 3)) = Some (rleg_below theta m rleg 362)"
        using recurrence_loop[of m theta rleg] by (simp add: maxDeg_def)
      show ?thesis
        unfolding computeNormalizedLegendreFunctions_def Let_def rd_def
        by (simp only: i1 d3 i2 lp B x w1 y d w2 True m3 if_True bind.simps rl)
    qed
  qed
qed

lemma rleg_val_degree:
  assumes "m + 2 \<le> n"
  shows "rleg_val theta m (n - m) =
     sqrt (real (2 * n + 1)) / (sqrt (real (n + m)) * sqrt (real (n - m)))
       * (sqrt (real (2 * n - 1)) * cos theta * rleg_val theta m (n - 1 - m)
          - sqrt (real (n + m - 1)) * sqrt (real (n - m - 1)) / sqrt (real (2 * n - 3))
              * rleg_val theta m (n - 2 - m))"
proof -
  obtain d where n: "n = m + d + 2" using assms by (metis le_Suc_ex add.assoc add.commute)
  have e: "n - m = Suc (Suc d)" "n - 1 - m = Suc d" "n - 2 - m = d"
    by (simp_all add: n)
  show ?thesis unfolding e rleg_val.simps Let_def n[symmetric] by simp
qed

lemma rleg_below_final:
  "m \<le> n \<Longrightarrow> n \<le> 360 \<Longrightarrow> rleg_below theta m rleg 362 (n + 1) = Some (rleg_val theta m (n - m))"
  by (simp add: rleg_below_def)

lemma rleg_below_outside:
  "k < m + 1 \<or> 361 < k \<Longrightarrow> rleg_below theta m rleg 362 k = rleg k"
  by (auto simp: rleg_below_def)

text \<open>
  C4. For every order \<open>m \<le> 360\<close> and every colatitude \<open>theta\<close>, on the tables the
  constructor built, \<^verbatim>\<open>computeNormalizedLegendreFunctions\<close> returns and its buffer \<open>r\<close>
  holds a value for every degree \<open>n = m..360\<close> (at index \<open>n + 1\<close>), leaving every other
  entry as it was. The entry of degree \<open>m\<close> is the sectoral seed \<open>rlnn[m + 1]\<close>, built
  from \<open>1\<close>, \<open>sin theta \<surd>3\<close> and the factor \<open>\<surd>(2k - 1) / \<surd>(2k - 2) sin theta\<close>; the base
  cases \<open>m = 0\<close> and \<open>m = 1\<close> give \<open>1\<close>, \<open>cos theta \<surd>3\<close> and \<open>sin theta \<surd>3\<close>,
  \<open>\<surd>5 cos theta (sin theta \<surd>3)\<close>; the entry of degree \<open>m + 1\<close> is
  \<open>\<surd>(2m + 3) cos theta\<close> times the seed. For every degree \<open>n\<close> from \<open>m + 2\<close> to \<open>360\<close>
  the skip condition \<open>(m = 0 \<and> n < 2) \<or> (m = 1 \<and> n < 3)\<close> is false and the entry is the
  three-term recurrence
  \<open>\<surd>(2n + 1) / (\<surd>(n + m) \<surd>(n - m)) (\<surd>(2n - 1) cos theta rleg(n - 1)
     - \<surd>(n + m - 1) \<surd>(n - m - 1) / \<surd>(2n - 3) rleg(n - 2))\<close>,
  every square root being a table entry of index at least \<open>1\<close>.
\<close>

theorem legendre_recurrence:
  assumes "m \<le> 360"
  shows "\<exists>r. computeNormalizedLegendreFunctions built_tables m theta rleg = Some r
    \<and> (\<forall>n. m \<le> n \<and> n \<le> 360 \<longrightarrow> r (n + 1) \<noteq> None)
    \<and> (\<forall>k. k < m + 1 \<or> 361 < k \<longrightarrow> r k = rleg k)
    \<and> r (m + 1) = Some (rlnn_val theta (m + 1))
    \<and> rlnn_val theta 1 = 1 \<and> rlnn_val theta 2 = sin theta * sqrt 3
    \<and> (\<forall>k. 3 \<le> k \<longrightarrow> rlnn_val theta k
          = sqrt (real (2 * k - 1)) / sqrt (real (2 * k - 2)) * sin theta * rlnn_val theta (k - 1))
    \<and> (m = 0 \<longrightarrow> r 1 = Some 1 \<and> r 2 = Some (cos theta * sqrt 3))
    \<and> (m = 1 \<longrightarrow> r 2 = Some (sin theta * sqrt 3)
                   \<and> r 3 = Some (sqrt 5 * cos theta * (sin theta * sqrt 3)))
    \<and> (m + 1 \<le> 360 \<longrightarrow> r (m + 2) = Some (sqrt (real (2 * m + 3)) * cos theta * the (r (m + 1))))
    \<and> (\<forall>n. m + 2 \<le> n \<and> n \<le> 360 \<longrightarrow>
          \<not> ((m = 0 \<and> n < 2) \<or> (m = 1 \<and> n < 3))
          \<and> r (n + 1) = Some
               (sqrt (real (2 * n + 1)) / (sqrt (real (n + m)) * sqrt (real (n - m)))
                  * (sqrt (real (2 * n - 1)) * cos theta * the (r n)
                     - sqrt (real (n + m - 1)) * sqrt (real (n - m - 1)) / sqrt (real (2 * n - 3))
                         * the (r (n - 1)))))"
proof -
  let ?r = "rleg_below theta m rleg 362"
  have run: "computeNormalizedLegendreFunctions built_tables m theta rleg = Some ?r"
    by (rule computeNormalizedLegendreFunctions_built[OF assms])
  have val: "?r (n + 1) = Some (rleg_val theta m (n - m))" if "m \<le> n" "n \<le> 360" for n
    using that by (rule rleg_below_final)
  have filled: "\<forall>n. m \<le> n \<and> n \<le> 360 \<longrightarrow> ?r (n + 1) \<noteq> None"
    using val by auto
  have outside: "\<forall>k. k < m + 1 \<or> 361 < k \<longrightarrow> ?r k = rleg k"
    by (simp add: rleg_below_outside)
  have seed: "?r (m + 1) = Some (rlnn_val theta (m + 1))"
    using val[of m] assms by simp
  have s1: "rlnn_val theta 1 = 1" by simp
  have s2: "rlnn_val theta 2 = sin theta * sqrt 3" by (simp add: numeral_2_eq_2)
  have s3: "\<forall>k. 3 \<le> k \<longrightarrow> rlnn_val theta k
          = sqrt (real (2 * k - 1)) / sqrt (real (2 * k - 2)) * sin theta * rlnn_val theta (k - 1)"
  proof (intro allI impI)
    fix k :: nat assume k: "3 \<le> k"
    have "2 * (k - 1) + 1 = 2 * k - 1" "2 * (k - 1) = 2 * k - 2" using k by auto
    then show "rlnn_val theta k
          = sqrt (real (2 * k - 1)) / sqrt (real (2 * k - 2)) * sin theta * rlnn_val theta (k - 1)"
      using rlnn_val_rec[OF k, of theta] by simp
  qed
  have next_deg: "?r (m + 2) = Some (sqrt (real (2 * m + 3)) * cos theta * the (?r (m + 1)))"
    if "m + 1 \<le> 360"
  proof -
    have a: "?r (m + 2) = Some (rleg_val theta m (Suc 0))"
      using val[of "m + 1"] that by (simp add: numeral_2_eq_2)
    have e: "(m + 1) * 2 + 1 = 2 * m + 3" by simp
    have b: "rleg_val theta m (Suc 0)
        = sqrt (real (2 * m + 3)) * cos theta * rlnn_val theta (m + 1)"
      by (simp only: rleg_val.simps e)
    have c: "the (?r (m + 1)) = rlnn_val theta (m + 1)"
      by (simp only: seed option.sel)
    show ?thesis by (simp only: a b c)
  qed
  have b0: "m = 0 \<longrightarrow> ?r 1 = Some 1 \<and> ?r 2 = Some (cos theta * sqrt 3)"
    by (simp add: rleg_below_def)
  have b1: "m = 1 \<longrightarrow> ?r 2 = Some (sin theta * sqrt 3)
                   \<and> ?r 3 = Some (sqrt 5 * cos theta * (sin theta * sqrt 3))"
    by (simp add: rleg_below_def numeral_2_eq_2)
  have rec: "\<forall>n. m + 2 \<le> n \<and> n \<le> 360 \<longrightarrow>
          \<not> ((m = 0 \<and> n < 2) \<or> (m = 1 \<and> n < 3))
          \<and> ?r (n + 1) = Some
               (sqrt (real (2 * n + 1)) / (sqrt (real (n + m)) * sqrt (real (n - m)))
                  * (sqrt (real (2 * n - 1)) * cos theta * the (?r n)
                     - sqrt (real (n + m - 1)) * sqrt (real (n - m - 1)) / sqrt (real (2 * n - 3))
                         * the (?r (n - 1))))"
  proof (intro allI impI conjI)
    fix n assume n: "m + 2 \<le> n \<and> n \<le> 360"
    show "\<not> ((m = 0 \<and> n < 2) \<or> (m = 1 \<and> n < 3))" using n by auto
    have "?r (n - 1 + 1) = Some (rleg_val theta m (n - 1 - m))"
      using n by (intro val) auto
    then have r1: "the (?r n) = rleg_val theta m (n - 1 - m)" using n by simp
    have "?r (n - 2 + 1) = Some (rleg_val theta m (n - 2 - m))"
      using n by (intro val) auto
    moreover have "n - 2 + 1 = n - 1" using n by auto
    ultimately have r2: "the (?r (n - 1)) = rleg_val theta m (n - 2 - m)" by simp
    have "?r (n + 1) = Some (rleg_val theta m (n - m))"
      using n by (intro val) auto
    then show "?r (n + 1) = Some
               (sqrt (real (2 * n + 1)) / (sqrt (real (n + m)) * sqrt (real (n - m)))
                  * (sqrt (real (2 * n - 1)) * cos theta * the (?r n)
                     - sqrt (real (n + m - 1)) * sqrt (real (n - m - 1)) / sqrt (real (2 * n - 3))
                         * the (?r (n - 1))))"
      unfolding r1 r2 using rleg_val_degree[of m n theta] n by simp
  qed
  show ?thesis
    using run filled outside seed s1 s2 s3 b0 b1 next_deg rec by blast
qed

text \<open>
  C10. The constructor assigns \<^verbatim>\<open>drts\<close> and \<^verbatim>\<open>dirt\<close> at the indices \<open>1..721\<close> and nowhere
  else (all below the 1301 elements the arrays have), and on these tables, for every
  order \<open>m \<le> 360\<close> and every colatitude, \<^verbatim>\<open>computeNormalizedLegendreFunctions\<close>
  returns: a read of \<^verbatim>\<open>drts[i]\<close> or \<^verbatim>\<open>dirt[i]\<close> at an index outside \<open>1..721\<close> would
  have been the read of an unassigned element, which ends the computation with
  \<open>None\<close>.
\<close>

theorem table_reads_in_range:
  assumes "m \<le> 360"
  shows "EGM96_new = Some built_tables
    \<and> dom (drts built_tables) = {1..721} \<and> dom (dirt built_tables) = {1..721}
    \<and> (\<exists>r. computeNormalizedLegendreFunctions built_tables m theta rleg = Some r)"
  using assms
  by (simp add: EGM96_new_built dom_drts_built dom_dirt_built computeNormalizedLegendreFunctions_built)


text \<open>
  The theorem at \<open>m = 0\<close>, \<open>theta = 0\<close> and an unassigned buffer: degrees 0, 1 and 2
  hold \<open>1\<close>, \<open>\<surd>3\<close> and \<open>\<surd>5\<close>, the values of the normalised Legendre polynomials at \<open>1\<close>.
\<close>

theorem legendre_recurrence_witness:
  "\<exists>r. computeNormalizedLegendreFunctions built_tables 0 0 Map.empty = Some r
     \<and> r 1 = Some 1 \<and> r 2 = Some (sqrt 3) \<and> r 3 = Some (sqrt 5)"
proof -
  have "(0::nat) \<le> 360" by simp
  from legendre_recurrence[OF this, of 0 Map.empty]
  show ?thesis
  proof (elim exE conjE)
    fix r
    assume run: "computeNormalizedLegendreFunctions built_tables 0 0 Map.empty = Some r"
      and b0: "(0::nat) = 0 \<longrightarrow> r 1 = Some 1 \<and> r 2 = Some (cos 0 * sqrt 3)"
      and rec: "\<forall>n. 0 + 2 \<le> n \<and> n \<le> 360 \<longrightarrow>
          \<not> (((0::nat) = 0 \<and> n < 2) \<or> ((0::nat) = 1 \<and> n < 3))
          \<and> r (n + 1) = Some
               (sqrt (real (2 * n + 1)) / (sqrt (real (n + 0)) * sqrt (real (n - 0)))
                  * (sqrt (real (2 * n - 1)) * cos 0 * the (r n)
                     - sqrt (real (n + 0 - 1)) * sqrt (real (n - 0 - 1)) / sqrt (real (2 * n - 3))
                         * the (r (n - 1))))"
    have r1: "r 1 = Some 1" and r2: "r 2 = Some (sqrt 3)" using b0 by simp_all
    have "0 + 2 \<le> (2::nat) \<and> (2::nat) \<le> 360" by simp
    note rec[THEN spec, of 2, THEN mp, OF this, THEN conjunct2]
    then have "r 3 = Some (sqrt 5)" using r1 r2 by simp
    then show ?thesis using run r1 r2 by blast
  qed
qed

text \<open>The theorem at the highest order, \<open>m = 360\<close>.\<close>

theorem table_reads_in_range_witness:
  "EGM96_new = Some built_tables
    \<and> dom (drts built_tables) = {1..721} \<and> dom (dirt built_tables) = {1..721}
    \<and> (\<exists>r. computeNormalizedLegendreFunctions built_tables 360 0 Map.empty = Some r)"
  using table_reads_in_range[of 360 0 Map.empty] by simp

section \<open>Ellipsoid metrics\<close>

text \<open>
  C5. For every geodetic latitude and longitude, \<^verbatim>\<open>computeGeocentricMetrics\<close> returns
  the geocentric latitude \<open>atan(z / \<surd>(x\<^sup>2 + y\<^sup>2))\<close>, the normal gravity
  \<open>geqt (1 + k sin\<^sup>2 lat) / \<surd>(1 - e\<^sup>2 sin\<^sup>2 lat)\<close> and the radius \<open>\<surd>(x\<^sup>2 + y\<^sup>2 + z\<^sup>2)\<close>, where
  \<open>n = a / \<surd>(1 - e\<^sup>2 sin\<^sup>2 lat)\<close>, \<open>x = n cos lat cos lon\<close>, \<open>y = n cos lat sin lon\<close>,
  \<open>z = n (1 - e\<^sup>2) sin lat\<close>, with \<open>a = 6378137.0\<close>, \<open>e\<^sup>2 = 0.00669437999013\<close>,
  \<open>geqt = 9.7803253359\<close> and \<open>k = 0.00193185265246\<close>; the radicand \<open>1 - e\<^sup>2 sin\<^sup>2 lat\<close> is
  positive at every latitude.
\<close>

theorem computeGeocentricMetrics_formulas:
  "(let n = 6378137.0 / sqrt (1 - 0.00669437999013 * (sin lat)\<^sup>2);
        x = n * cos lat * cos lon;
        y = n * cos lat * sin lon;
        z = n * (1 - 0.00669437999013) * sin lat
    in computeGeocentricMetrics lat lon =
         (arctan (z / sqrt (x\<^sup>2 + y\<^sup>2)),
          9.7803253359 * (1 + 0.00193185265246 * (sin lat)\<^sup>2)
            / sqrt (1 - 0.00669437999013 * (sin lat)\<^sup>2),
          sqrt (x\<^sup>2 + y\<^sup>2 + z\<^sup>2)))
   \<and> 0 < 1 - 0.00669437999013 * (sin lat)\<^sup>2"
proof
  have one: "(10::real) / 10 = 1" by simp
  show "(let n = 6378137.0 / sqrt (1 - 0.00669437999013 * (sin lat)\<^sup>2);
        x = n * cos lat * cos lon;
        y = n * cos lat * sin lon;
        z = n * (1 - 0.00669437999013) * sin lat
    in computeGeocentricMetrics lat lon =
         (arctan (z / sqrt (x\<^sup>2 + y\<^sup>2)),
          9.7803253359 * (1 + 0.00193185265246 * (sin lat)\<^sup>2)
            / sqrt (1 - 0.00669437999013 * (sin lat)\<^sup>2),
          sqrt (x\<^sup>2 + y\<^sup>2 + z\<^sup>2)))"
    unfolding computeGeocentricMetrics_def Let_def power2_eq_square one ..
  have "(sin lat)\<^sup>2 \<le> 1" by (simp add: abs_square_le_1)
  then show "0 < 1 - 0.00669437999013 * (sin lat)\<^sup>2" by simp
qed

section \<open>Harmonic synthesis\<close>

lemma order_step_below:
  assumes i: "1 \<le> i"
    and c: "cosml i = Some (C i)" and s: "sinml i = Some (S i)"
    and p: "p (k0 + i) = Some (P (k0 + i))"
  shows "order_step D p sinml cosml i (order_below D P S C k0 s0 sc0 i)
         = Some (order_below D P S C k0 s0 sc0 (Suc i))"
proof -
  have k: "k0 + (i - 1) + 1 = k0 + i" using i by simp
  show ?thesis
    unfolding order_below_def order_step.simps Let_def rd_def k
    by (simp only: c s p bind.simps) (use i in \<open>simp add: add.assoc\<close>)
qed

lemma order_loop:
  assumes c: "\<And>m. 1 \<le> m \<Longrightarrow> m \<le> n \<Longrightarrow> cosml m = Some (C m)"
    and s: "\<And>m. 1 \<le> m \<Longrightarrow> m \<le> n \<Longrightarrow> sinml m = Some (S m)"
    and p: "\<And>m. 1 \<le> m \<Longrightarrow> m \<le> n \<Longrightarrow> p (k0 + m) = Some (P (k0 + m))"
  shows "for_u32 1 n (order_step D p sinml cosml) (k0, s0, sc0)
         = Some (order_below D P S C k0 s0 sc0 (Suc n))"
proof -
  have "for_u32 1 n (order_step D p sinml cosml) (order_below D P S C k0 s0 sc0 1)
         = Some (order_below D P S C k0 s0 sc0 (Suc n))"
    by (intro for_u32_closed order_step_below c s p) simp_all
  moreover have "order_below D P S C k0 s0 sc0 1 = (k0, s0, sc0)"
    by (simp add: order_below_def)
  ultimately show ?thesis by simp
qed

lemma sum_upto_last: "1 \<le> n \<Longrightarrow> sum f {Suc 0..n} = sum f {Suc 0..<n} + (f n :: real)"
proof -
  assume "1 \<le> n"
  then obtain k where n: "n = Suc k" by (cases n) auto
  show ?thesis unfolding n by (simp add: atLeastLessThanSuc_atLeastAtMost)
qed

lemma degree_step_below:
  assumes n: "2 \<le> n"
    and c: "\<And>m. 1 \<le> m \<Longrightarrow> m \<le> n \<Longrightarrow> cosml m = Some (C m)"
    and s: "\<And>m. 1 \<le> m \<Longrightarrow> m \<le> n \<Longrightarrow> sinml m = Some (S m)"
    and p: "\<And>m. m \<le> n \<Longrightarrow> p (tri n + m + 1) = Some (P (tri n + m + 1))"
  shows "degree_step D p sinml cosml ar n (degree_below D P S C ar n)
         = Some (degree_below D P S C ar (Suc n))"
proof -
  have p0: "p (tri n + 1) = Some (P (tri n + 1))" using p[of 0] by simp
  have lp: "for_u32 1 n (order_step D p sinml cosml)
      (tri n + 1, P (tri n + 1) * D (tri n + 1) 2, P (tri n + 1) * D (tri n + 1) 0)
      = Some (order_below D P S C (tri n + 1) (P (tri n + 1) * D (tri n + 1) 2)
                (P (tri n + 1) * D (tri n + 1) 0) (Suc n))"
    by (rule order_loop) (use c s p in \<open>simp_all add: add.assoc add.commute\<close>)
  have pw: "ar ^ (n - 1) * ar = ar ^ n"
    using n by (metis Suc_diff_1 less_le_trans pos2 power_Suc2)
  show ?thesis
    unfolding degree_below_def degree_step.simps Let_def rd_def
    by (simp only: p0 bind.simps lp order_below_def prod.case pw)
       (use n in \<open>simp add: tri_Suc degree_sum_def sum_upto_last\<close>)
qed

lemma degree_loop:
  assumes c: "\<And>m. 1 \<le> m \<Longrightarrow> m \<le> N \<Longrightarrow> cosml m = Some (C m)"
    and s: "\<And>m. 1 \<le> m \<Longrightarrow> m \<le> N \<Longrightarrow> sinml m = Some (S m)"
    and p: "\<And>k. 4 \<le> k \<Longrightarrow> k \<le> tri (Suc N) \<Longrightarrow> p k = Some (P k)"
    and N: "1 \<le> N"
  shows "for_u32 2 N (degree_step D p sinml cosml ar) (ar, 3, 0, 0)
         = Some (degree_below D P S C ar (Suc N))"
proof -
  have "for_u32 2 N (degree_step D p sinml cosml ar) (degree_below D P S C ar 2)
         = Some (degree_below D P S C ar (Suc N))"
  proof (intro for_u32_closed degree_step_below)
    show "2 \<le> Suc N" using N by simp
  next
    fix n m assume n: "2 \<le> n" "n \<le> N" and m: "m \<le> n"
    have "tri 2 \<le> tri n" using n by (intro tri_mono)
    then have "4 \<le> tri n + m + 1" by (simp add: tri_def)
    moreover have "tri n + m + 1 \<le> tri (Suc n)" using m by (simp add: tri_Suc)
    moreover have "tri (Suc n) \<le> tri (Suc N)" using n by (intro tri_mono) simp
    ultimately show "p (tri n + m + 1) = Some (P (tri n + m + 1))" by (intro p) auto
  qed (use c s in auto)
  moreover have "degree_below D P S C ar 2 = (ar, 3, 0, 0)"
    by (simp add: degree_below_def tri_def)
  ultimately show ?thesis by simp
qed

lemma synthesis_loop_360:
  assumes p: "\<forall>k. 2 \<le> k \<and> k \<le> 65341 \<longrightarrow> p k = Some (P k)"
    and t: "\<forall>m. 1 \<le> m \<and> m \<le> 360 \<longrightarrow> sinml m = Some (S m) \<and> cosml m = Some (C m)"
  shows "for_u32 2 maxDeg (degree_step D p sinml cosml ar) (ar, 3, 0, 0)
         = Some (ar ^ 360, 65341,
                 (\<Sum>d = 2..360. degree_sum D P S C 0 1 d),
                 (\<Sum>d = 2..360. degree_sum D P S C 2 3 d * ar ^ d))"
proof -
  have "for_u32 2 360 (degree_step D p sinml cosml ar) (ar, 3, 0, 0)
         = Some (degree_below D P S C ar (Suc 360))"
  proof (rule degree_loop)
    fix k :: nat assume "4 \<le> k" "k \<le> tri (Suc 360)"
    then have "2 \<le> k \<and> k \<le> 65341" using tri_361 by simp
    then show "p k = Some (P k)" using p by blast
  qed (use t in auto)
  moreover have "{2..<Suc 360} = {2..360::nat}"
    by (rule atLeastLessThanSuc_atLeastAtMost)
  moreover have "tri (Suc 360) = 65341" using tri_361 by simp
  moreover have "Suc 360 - 1 = (360::nat)" by simp
  ultimately show ?thesis
    by (simp only: degree_below_def maxDeg_def)
qed

lemma synthesis_value:
  assumes p: "\<forall>k. 2 \<le> k \<and> k \<le> 65341 \<longrightarrow> p k = Some (P k)"
    and t: "\<forall>m. 1 \<le> m \<and> m \<le> 360 \<longrightarrow> sinml m = Some (S m) \<and> cosml m = Some (C m)"
  shows "calculateGravitationalUndulation D p sinml cosml gr re =
     Some ((((\<Sum>d = 2..360. degree_sum D P S C 2 3 d * (WGS84DatumSurfaceEquatorialRadius / re) ^ d)
             * WGS84GravitationalConstant) / (gr * re))
           + (((\<Sum>d = 2..360. degree_sum D P S C 0 1 d)
               + (D 1 0 + (P 2 * D 2 0) + (P 3 * (D 3 0 * C 1 + D 3 1 * S 1)))) / 100.0)
           - 0.53)"
proof -
  have p2: "p 2 = Some (P 2)" and p3: "p 3 = Some (P 3)" using p by simp_all
  have c1: "cosml 1 = Some (C 1)" and s1: "sinml 1 = Some (S 1)" using t by simp_all
  show ?thesis
    unfolding calculateGravitationalUndulation_def Let_def rd_def
    by (simp only: synthesis_loop_360[OF p t] bind.simps prod.case p2 p3 c1 s1)
qed

text \<open>
  C1. For arrays \<open>p\<close>, \<open>sinml\<close>, \<open>cosml\<close> that hold the values \<open>P\<close> on \<open>2..65341\<close> and
  \<open>S\<close>, \<open>C\<close> on \<open>1..360\<close>, and every \<open>gr\<close> and \<open>re\<close>,
  \<^verbatim>\<open>calculateGravitationalUndulation\<close> returns \<open>(a GM) / (gr re) + ac / 100 - 0.53\<close> with
  \<open>GM = 0.3986004418e15\<close>, where \<open>a\<close> is the sum over the degrees \<open>n = 2..360\<close> of the
  degree's harmonic sum (columns 2 and 3 of the table) times \<open>(6378137 / re)\<^sup>n\<close>, and
  \<open>ac\<close> is the sum of the degrees' correction sums (columns 0 and 1) plus the
  reference terms \<open>egm96Data[1][0] + p[2] egm96Data[2][0]
  + p[3] (egm96Data[3][0] cosml[1] + egm96Data[3][1] sinml[1])\<close>.
\<close>

theorem undulation_formula:
  assumes p: "\<forall>k. 2 \<le> k \<and> k \<le> 65341 \<longrightarrow> p k = Some (P k)"
    and t: "\<forall>m. 1 \<le> m \<and> m \<le> 360 \<longrightarrow> sinml m = Some (S m) \<and> cosml m = Some (C m)"
  shows "calculateGravitationalUndulation egm96Data p sinml cosml gr re =
     Some (let a = (\<Sum>n = 2..360.
                      (P (n * (n + 1) div 2 + 1) * egm96Data (n * (n + 1) div 2 + 1) 2
                       + (\<Sum>m = 1..n. P (n * (n + 1) div 2 + m + 1)
                            * (egm96Data (n * (n + 1) div 2 + m + 1) 2 * C m
                               + egm96Data (n * (n + 1) div 2 + m + 1) 3 * S m)))
                      * (6378137.0 / re) ^ n);
               ac = (\<Sum>n = 2..360.
                      P (n * (n + 1) div 2 + 1) * egm96Data (n * (n + 1) div 2 + 1) 0
                      + (\<Sum>m = 1..n. P (n * (n + 1) div 2 + m + 1)
                           * (egm96Data (n * (n + 1) div 2 + m + 1) 0 * C m
                              + egm96Data (n * (n + 1) div 2 + m + 1) 1 * S m)))
                    + (egm96Data 1 0 + P 2 * egm96Data 2 0
                       + P 3 * (egm96Data 3 0 * C 1 + egm96Data 3 1 * S 1))
           in (a * 398600441800000) / (gr * re) + ac / 100 - 0.53)"
proof -
  have gm: "WGS84GravitationalConstant = 398600441800000"
    by (simp add: WGS84GravitationalConstant_def)
  have ra: "WGS84DatumSurfaceEquatorialRadius = 6378137.0"
    by (simp add: WGS84DatumSurfaceEquatorialRadius_def)
  have h: "(100.0::real) = 100" by simp
  show ?thesis
    unfolding synthesis_value[OF p t] Let_def
    by (simp only: degree_sum_def[abs_def] tri_def gm ra h)
qed

text \<open>
  The theorem at a table that is \<open>100\<close> everywhere, \<open>p = 0\<close>, \<open>sinml = cosml = 1\<close> and
  \<open>gr = re = 1\<close>: \<open>a = 0\<close>, \<open>ac = 100\<close>, and the result is \<open>1 - 0.53\<close>.
\<close>

theorem undulation_formula_witness:
  "calculateGravitationalUndulation (\<lambda>k c. 100) (\<lambda>k. Some 0) (\<lambda>m. Some 1) (\<lambda>m. Some 1) 1 1
   = Some 0.47"
  using undulation_formula[of "\<lambda>k. Some 0" "\<lambda>k. 0" "\<lambda>m. Some 1" "\<lambda>m. 1" "\<lambda>m. Some 1" "\<lambda>m. 1"
      "\<lambda>k c. 100" 1 1]
  by simp

section \<open>The longitude series\<close>

lemma sin_step:
  assumes "3 \<le> m"
  shows "2 * cos x * sin (real (m - 1) * x) - sin (real (m - 2) * x) = sin (real m * x)"
proof -
  have a: "real m * x = real (m - 1) * x + x" using assms by (simp add: algebra_simps of_nat_diff)
  have b: "real (m - 2) * x = real (m - 1) * x - x"
    using assms by (simp add: algebra_simps of_nat_diff)
  show ?thesis unfolding a b sin_add sin_diff by simp
qed

lemma cos_step:
  assumes "3 \<le> m"
  shows "2 * cos x * cos (real (m - 1) * x) - cos (real (m - 2) * x) = cos (real m * x)"
proof -
  have a: "real m * x = real (m - 1) * x + x" using assms by (simp add: algebra_simps of_nat_diff)
  have b: "real (m - 2) * x = real (m - 1) * x - x"
    using assms by (simp add: algebra_simps of_nat_diff)
  show ?thesis unfolding a b cos_add cos_diff by simp
qed

lemma trig_step_below:
  assumes "3 \<le> m" "m \<le> 360"
  shows "trig_step (cos rlon) m (trig_below rlon m) = Some (trig_below rlon (Suc m))"
proof -
  have s1: "fst (trig_below rlon m) (m - 1) = Some (sin (real (m - 1) * rlon))"
    and s2: "fst (trig_below rlon m) (m - 2) = Some (sin (real (m - 2) * rlon))"
    and c1: "snd (trig_below rlon m) (m - 1) = Some (cos (real (m - 1) * rlon))"
    and c2: "snd (trig_below rlon m) (m - 2) = Some (cos (real (m - 2) * rlon))"
    using assms by (simp_all add: trig_below_def)
  have ws: "wr (maxDeg + 2) (fst (trig_below rlon m)) m (sin (real m * rlon))
      = Some (fst (trig_below rlon (Suc m)))"
    using assms by (auto simp: wr_def maxDeg_def trig_below_def fun_eq_iff)
  have wc: "wr (maxDeg + 2) (snd (trig_below rlon m)) m (cos (real m * rlon))
      = Some (snd (trig_below rlon (Suc m)))"
    using assms by (auto simp: wr_def maxDeg_def trig_below_def fun_eq_iff)
  have "trig_step (cos rlon) m (fst (trig_below rlon m), snd (trig_below rlon m))
      = Some (fst (trig_below rlon (Suc m)), snd (trig_below rlon (Suc m)))"
    unfolding trig_step.simps rd_def
    by (simp only: s1 s2 c1 c2 bind.simps sin_step[OF assms(1)] cos_step[OF assms(1)] ws wc)
  then show ?thesis by simp
qed

lemma computeTrigonometricSeriesForLongitude_result:
  "computeTrigonometricSeriesForLongitude rlon Map.empty Map.empty = Some (trig_below rlon 361)"
proof -
  have lp: "for_u32 3 360 (trig_step (cos rlon)) (trig_below rlon 3)
      = Some (trig_below rlon (Suc 360))"
    by (intro for_u32_closed trig_step_below) simp_all
  have s2: "2 * cos rlon * sin rlon = sin (real 2 * rlon)"
    by (simp add: sin_double)
  have c2: "2 * cos rlon * cos rlon - 1 = cos (real 2 * rlon)"
    by (simp add: cos_double_cos power2_eq_square)
  have init: "([1 \<mapsto> sin rlon, 2 \<mapsto> sin (real 2 * rlon)], [1 \<mapsto> cos rlon, 2 \<mapsto> cos (real 2 * rlon)])
      = trig_below rlon 3"
  proof -
    have "[1 \<mapsto> sin rlon, 2 \<mapsto> sin (real 2 * rlon)] k = fst (trig_below rlon 3) k
        \<and> [1 \<mapsto> cos rlon, 2 \<mapsto> cos (real 2 * rlon)] k = snd (trig_below rlon 3) k" for k :: nat
    proof -
      consider "k = 0" | "k = 1" | "k = 2" | "3 \<le> k" by linarith
      then show ?thesis by cases (simp_all add: trig_below_def)
    qed
    then show ?thesis by (simp add: prod_eq_iff fun_eq_iff)
  qed
  have w1: "wr (maxDeg + 2) Map.empty 1 v = Some [1 \<mapsto> v]" for v
    by (simp add: maxDeg_def)
  have w2: "wr (maxDeg + 2) [1 \<mapsto> u] 2 v = Some [1 \<mapsto> u, 2 \<mapsto> v]" for u v
    by (simp add: maxDeg_def)
  have lp': "for_u32 3 maxDeg (trig_step (cos rlon)) (trig_below rlon 3)
      = Some (trig_below rlon 361)"
    using lp by (simp add: maxDeg_def)
  show ?thesis
    unfolding computeTrigonometricSeriesForLongitude_def Let_def
    by (simp only: w1 w2 bind.simps s2 c2 init lp')
qed

lemma trig_below_sin: "1 \<le> m \<Longrightarrow> m \<le> 360 \<Longrightarrow> fst (trig_below rlon 361) m = Some (sin (real m * rlon))"
  by (simp add: trig_below_def)

lemma trig_below_cos: "1 \<le> m \<Longrightarrow> m \<le> 360 \<Longrightarrow> snd (trig_below rlon 361) m = Some (cos (real m * rlon))"
  by (simp add: trig_below_def)

section \<open>The scatter loops\<close>

lemma idx_range:
  assumes "m < i" "i \<le> 361"
  shows "1 \<le> idx i m \<and> idx i m \<le> 65341"
proof -
  have "(i, m) \<in> {(n, m). m < n \<and> n \<le> 361}" using assms by simp
  then have "(\<lambda>(n, m). idx n m) (i, m) \<in> (\<lambda>(n, m). idx n m) ` {(n, m). m < n \<and> n \<le> 361}"
    by (rule imageI)
  then have "idx i m \<in> {1..tri 361}" unfolding idx_image by simp
  then show ?thesis unfolding tri_361 by simp
qed

lemma scatter_step_filled:
  assumes j: "1 \<le> j" "j \<le> i" "i \<le> 361"
    and f: "p_filled theta j i p"
  shows "\<exists>p'. scatter_step (rleg_below theta (j - 1) rleg 362) (j - 1) i p = Some p'
           \<and> p_filled theta j (Suc i) p'"
proof -
  let ?v = "rleg_val theta (j - 1) (i - (j - 1 + 1))"
  let ?p' = "p(idx i (j - 1) \<mapsto> ?v)"
  have "j - 1 + 1 \<le> i \<and> i < 362" using j by simp
  then have r: "rleg_below theta (j - 1) rleg 362 i = Some ?v"
    unfolding rleg_below_def by (rule if_P)
  have rng: "1 \<le> idx i (j - 1) \<and> idx i (j - 1) \<le> 65341"
    using j by (intro idx_range) auto
  then have w: "wr coeffsCount p (idx i (j - 1)) ?v = Some ?p'"
    by (simp add: wr_def coeffsCount_def)
  have run: "scatter_step (rleg_below theta (j - 1) rleg 362) (j - 1) i p = Some ?p'"
    unfolding scatter_step_def rd_def by (simp only: r bind.simps w)
  have d: "dom ?p' \<subseteq> {1..65341}"
    using f rng by (auto simp: p_filled_def)
  have v: "?p' (idx i' m') = Some (rleg_val theta m' (i' - (m' + 1)))"
    if h: "m' < i'" "i' \<le> 361" "m' + 1 < j \<or> (m' + 1 = j \<and> i' < Suc i)" for m' i'
  proof (cases "i' = i \<and> m' = j - 1")
    case True
    then show ?thesis by simp
  next
    case False
    have "idx i' m' \<noteq> idx i (j - 1)"
    proof
      assume "idx i' m' = idx i (j - 1)"
      moreover have "j - 1 < i" using j by simp
      ultimately have "i' = i \<and> m' = j - 1" using h(1) by (intro idx_inj)
      then show False using False by simp
    qed
    moreover have "m' + 1 < j \<or> (m' + 1 = j \<and> i' < i)"
      using h(3) False j by auto
    then have "p (idx i' m') = Some (rleg_val theta m' (i' - (m' + 1)))"
      using f h(1,2) unfolding p_filled_def by blast
    ultimately show ?thesis by simp
  qed
  have "p_filled theta j (Suc i) ?p'"
    unfolding p_filled_def using d v by blast
  then show ?thesis using run by blast
qed

lemma scatter_loop:
  assumes j: "1 \<le> j" "j \<le> 361"
    and f: "p_filled theta j j p"
  shows "\<exists>p'. for_u32 j (maxDeg + 1) (scatter_step (rleg_below theta (j - 1) rleg 362) (j - 1)) p
               = Some p'
           \<and> p_filled theta (Suc j) (Suc j) p'"
proof -
  have "\<exists>p'. for_u32 j 361 (scatter_step (rleg_below theta (j - 1) rleg 362) (j - 1)) p = Some p'
           \<and> p_filled theta j (Suc 361) p'"
  proof (rule for_u32_rule[where I="p_filled theta j"])
    show "p_filled theta j j p" by (rule f)
    show "j \<le> Suc 361" using j by simp
  next
    fix i s assume "j \<le> i" "i \<le> 361" "p_filled theta j i s"
    then show "\<exists>s'. scatter_step (rleg_below theta (j - 1) rleg 362) (j - 1) i s = Some s'
        \<and> p_filled theta j (Suc i) s'"
      using j(1) by (intro scatter_step_filled)
  qed
  then obtain p' where run: "for_u32 j 361 (scatter_step (rleg_below theta (j - 1) rleg 362) (j - 1)) p = Some p'"
    and f': "p_filled theta j (Suc 361) p'" by blast
  have md: "maxDeg + 1 = 361" by (simp add: maxDeg_def)
  have "p_filled theta (Suc j) (Suc j) p'"
    unfolding p_filled_def
  proof (intro conjI allI impI)
    show "dom p' \<subseteq> {1..65341}" using f' by (simp add: p_filled_def)
  next
    fix m' i'
    assume h: "m' < i' \<and> i' \<le> 361 \<and> (m' + 1 < Suc j \<or> m' + 1 = Suc j \<and> i' < Suc j)"
    then have "m' < i' \<and> i' \<le> 361 \<and> (m' + 1 < j \<or> (m' + 1 = j \<and> i' < Suc 361))" by auto
    then show "p' (idx i' m') = Some (rleg_val theta m' (i' - (m' + 1)))"
      using f' unfolding p_filled_def by blast
  qed
  then show ?thesis unfolding md using run by blast
qed

lemma order_fill_filled:
  assumes j: "1 \<le> j" "j \<le> 361"
    and f: "p_filled theta j j p"
  shows "\<exists>s'. order_fill built_tables theta j (p, rleg) = Some s'
           \<and> p_filled theta (Suc j) (Suc j) (fst s')"
proof -
  have "j - 1 \<le> 360" using j by simp
  then have l: "computeNormalizedLegendreFunctions built_tables (j - 1) theta rleg
      = Some (rleg_below theta (j - 1) rleg 362)"
    by (rule computeNormalizedLegendreFunctions_built)
  obtain p' where run: "for_u32 j (maxDeg + 1)
        (scatter_step (rleg_below theta (j - 1) rleg 362) (j - 1)) p = Some p'"
    and f': "p_filled theta (Suc j) (Suc j) p'"
    using scatter_loop[OF j f] by blast
  have "order_fill built_tables theta j (p, rleg) = Some (p', rleg_below theta (j - 1) rleg 362)"
    unfolding order_fill.simps Let_def by (simp only: l bind.simps run)
  then show ?thesis using f' by simp
qed

lemma fill_loop:
  "\<exists>p rleg. for_u32 1 (maxDeg + 1) (order_fill built_tables theta) (Map.empty, Map.empty)
               = Some (p, rleg)
     \<and> p_filled theta 362 362 p"
proof -
  have "\<exists>s'. for_u32 1 361 (order_fill built_tables theta) (Map.empty, Map.empty) = Some s'
      \<and> p_filled theta (Suc 361) (Suc 361) (fst s')"
  proof (rule for_u32_rule[where I="\<lambda>j s. p_filled theta j j (fst s)"])
    show "p_filled theta 1 1 (fst (Map.empty, Map.empty))"
      by (simp add: p_filled_def)
    show "(1::nat) \<le> Suc 361" by simp
  next
    fix j :: nat and s :: "darray \<times> darray"
    assume h: "1 \<le> j" "j \<le> 361" "p_filled theta j j (fst s)"
    obtain p rleg where s: "s = (p, rleg)" by (cases s)
    show "\<exists>s'. order_fill built_tables theta j s = Some s' \<and> p_filled theta (Suc j) (Suc j) (fst s')"
      unfolding s using h by (intro order_fill_filled) (simp_all add: s)
  qed
  then obtain s' where s': "for_u32 1 361 (order_fill built_tables theta) (Map.empty, Map.empty) = Some s'"
    "p_filled theta 362 362 (fst s')" by auto
  have md: "maxDeg + 1 = 361" by (simp add: maxDeg_def)
  obtain p rleg where "s' = (p, rleg)" by (cases s')
  then show ?thesis unfolding md using s' by auto
qed

lemma p_filled_final:
  assumes "p_filled theta 362 362 p"
  shows "dom p = {1..65341}"
    and "m \<le> n \<Longrightarrow> n \<le> 360 \<Longrightarrow> p (tri n + m + 1) = Some (rleg_val theta m (n - m))"
proof -
  have v: "p (idx i' m') = Some (rleg_val theta m' (i' - (m' + 1)))" if "m' < i'" "i' \<le> 361" for m' i'
    using assms that unfolding p_filled_def by auto
  show "dom p = {1..65341}"
  proof
    show "dom p \<subseteq> {1..65341}" using assms by (simp add: p_filled_def)
    show "{1..65341} \<subseteq> dom p"
    proof
      fix k :: nat assume "k \<in> {1..65341}"
      then have "k \<in> (\<lambda>(n, m). idx n m) ` {(n, m). m < n \<and> n \<le> 361}"
        unfolding idx_image tri_361 .
      then obtain x where x: "x \<in> {(n, m). m < n \<and> n \<le> (361::nat)}" "k = (\<lambda>(n, m). idx n m) x"
        by (rule imageE)
      obtain i' m' where xe: "x = (i', m')" by (cases x)
      have "p (idx i' m') = Some (rleg_val theta m' (i' - (m' + 1)))"
        using x(1) unfolding xe by (intro v) auto
      then show "k \<in> dom p" using x(2) unfolding xe by auto
    qed
  qed
  show "p (tri n + m + 1) = Some (rleg_val theta m (n - m))" if "m \<le> n" "n \<le> 360"
    using v[of m "Suc n"] that by (simp add: idx_Suc)
qed

section \<open>The value of \<^verbatim>\<open>M_PI\<close>\<close>

text \<open>
  The double nearest to \<open>\<pi>\<close> lies below \<open>\<pi>\<close>: by Machin's formula
  \<open>\<pi> = 16 arctan (1 / 5) - 4 arctan (1 / 239)\<close>, and the partial sums of the alternating
  series bound both values of \<open>arctan\<close>.
\<close>

lemma arctan_term_nonneg: "0 \<le> x \<Longrightarrow> 0 \<le> arctan_term x n"
  by (simp add: arctan_term_def)

lemma arctan_term_decreasing:
  assumes "0 \<le> x" "x \<le> 1"
  shows "arctan_term x (Suc n) \<le> arctan_term x n"
proof -
  have "x ^ (Suc n * 2 + 1) \<le> x ^ (n * 2 + 1)"
    using assms by (intro power_decreasing) auto
  moreover have "1 / real (Suc n * 2 + 1) \<le> 1 / real (n * 2 + 1)"
    by (intro divide_left_mono) auto
  moreover have "0 \<le> x ^ (Suc n * 2 + 1)" "0 \<le> 1 / real (n * 2 + 1)"
    using assms by auto
  ultimately show ?thesis
    unfolding arctan_term_def by (intro mult_mono) auto
qed

lemma arctan_bounds:
  assumes "0 \<le> x" "x \<le> 1"
  shows "(\<Sum>i<2 * n. (- 1) ^ i * arctan_term x i) \<le> arctan x"
    and "arctan x \<le> (\<Sum>i<2 * n + 1. (- 1) ^ i * arctan_term x i)"
proof -
  have ax: "\<bar>x\<bar> \<le> 1" using assms by simp
  have z: "arctan_term x \<longlonglongrightarrow> 0"
    using zeroseq_arctan_series[OF ax] by (simp add: arctan_term_def[abs_def])
  have s: "arctan x = (\<Sum>k. (- 1) ^ k * arctan_term x k)"
    using arctan_series[OF ax] by (simp add: arctan_term_def)
  show "(\<Sum>i<2 * n. (- 1) ^ i * arctan_term x i) \<le> arctan x"
    unfolding s
    by (rule summable_Leibniz'(2)[OF z arctan_term_nonneg[OF assms(1)]
          arctan_term_decreasing[OF assms]])
  show "arctan x \<le> (\<Sum>i<2 * n + 1. (- 1) ^ i * arctan_term x i)"
    unfolding s
    by (rule summable_Leibniz'(4)[OF z arctan_term_nonneg[OF assms(1)]
          arctan_term_decreasing[OF assms]])
qed

lemma arctan_fifth_lower:
  "(\<Sum>i<2 * 6. (- 1) ^ i * arctan_term (1 / 5) i) \<le> arctan (1 / 5)"
  by (rule arctan_bounds(1)) simp_all

lemma arctan_239_upper:
  "arctan (1 / 239) \<le> (\<Sum>i<2 * 2 + 1. (- 1) ^ i * arctan_term (1 / 239) i)"
  by (rule arctan_bounds(2)) simp_all

lemma M_PI_double_less_machin:
  "M_PI_double < 16 * (\<Sum>i<2 * 6. (- 1) ^ i * arctan_term (1 / 5) i)
                 - 4 * (\<Sum>i<2 * 2 + 1. (- 1) ^ i * arctan_term (1 / 239) i)"
  by (simp add: M_PI_double_def arctan_term_def eval_nat_numeral)

lemma M_PI_double_less_pi: "M_PI_double < pi"
proof -
  have "pi = 16 * arctan (1 / 5) - 4 * arctan (1 / 239)"
    using machin by simp
  then show ?thesis
    using M_PI_double_less_machin arctan_fifth_lower arctan_239_upper by linarith
qed

lemma M_PI_double_pos: "0 < M_PI_double"
  by (simp add: M_PI_double_def)

lemma cos_pole_pos:
  "0 < cos (M_PI_double / 2)" "0 < cos (- (M_PI_double / 2))"
  using cos_gt_zero_pi[of "M_PI_double / 2"] M_PI_double_less_pi M_PI_double_pos by simp_all

section \<open>The query\<close>

lemma geocentric_latitude:
  assumes c: "0 < cos lat"
  shows "fst (computeGeocentricMetrics lat lon) = arctan ((1 - 0.00669437999013) * tan lat)"
proof -
  define n :: real where "n = 6378137.0 / sqrt (1.0 - (0.00669437999013 * (sin lat * sin lat)))"
  have "sin lat * sin lat \<le> 1"
    using abs_square_le_1[of "sin lat"] by (simp add: power2_eq_square)
  then have "0 < 1.0 - (0.00669437999013 * (sin lat * sin lat))" by simp
  then have n: "0 < n" unfolding n_def by simp
  have r: "fst (computeGeocentricMetrics lat lon)
      = arctan ((n * (1 - 0.00669437999013)) * sin lat
                / sqrt ((n * cos lat * cos lon * (n * cos lat * cos lon))
                        + (n * cos lat * sin lon * (n * cos lat * sin lon))))"
    unfolding computeGeocentricMetrics_def Let_def n_def by (simp only: fst_conv)
  have "(n * cos lat * cos lon * (n * cos lat * cos lon))
        + (n * cos lat * sin lon * (n * cos lat * sin lon))
      = (n * cos lat) * (n * cos lat) * (cos lon * cos lon + sin lon * sin lon)"
    by algebra
  also have "\<dots> = (n * cos lat) * (n * cos lat)"
    by (simp only: sin_cos_squared_add3 mult_1_right)
  finally have "sqrt ((n * cos lat * cos lon * (n * cos lat * cos lon))
        + (n * cos lat * sin lon * (n * cos lat * sin lon))) = n * cos lat"
    using n c by simp
  then have s: "sqrt ((n * cos lat * cos lon * (n * cos lat * cos lon))
        + (n * cos lat * sin lon * (n * cos lat * sin lon))) = n * cos lat" .
  have "(n * (1 - 0.00669437999013)) * sin lat / (n * cos lat)
      = (n * ((1 - 0.00669437999013) * sin lat)) / (n * cos lat)"
    by (simp only: mult.assoc)
  also have "\<dots> = ((1 - 0.00669437999013) * sin lat) / cos lat"
    using n by (intro mult_divide_mult_cancel_left) simp
  also have "\<dots> = (1 - 0.00669437999013) * tan lat"
    by (simp only: tan_def times_divide_eq_right)
  finally have q: "(n * (1 - 0.00669437999013)) * sin lat / (n * cos lat)
      = (1 - 0.00669437999013) * tan lat" .
  show ?thesis unfolding r s q ..
qed

lemma trig_result_pair:
  "computeTrigonometricSeriesForLongitude rlon Map.empty Map.empty
   = Some (fst (trig_below rlon 361), snd (trig_below rlon 361))"
  by (simp add: computeTrigonometricSeriesForLongitude_result)

lemma filled_populated:
  assumes "p_filled theta 362 362 p"
  shows "\<forall>k. 2 \<le> k \<and> k \<le> 65341 \<longrightarrow> p k = Some (the (p k))"
proof (intro allI impI)
  fix k :: nat assume "2 \<le> k \<and> k \<le> 65341"
  then have "k \<in> dom p" unfolding p_filled_final(1)[OF assms] by simp
  then show "p k = Some (the (p k))" by auto
qed

lemma trig_populated:
  "\<forall>m. 1 \<le> m \<and> m \<le> 360 \<longrightarrow>
     fst (trig_below rlon 361) m = Some (sin (real m * rlon))
     \<and> snd (trig_below rlon 361) m = Some (cos (real m * rlon))"
  by (simp add: trig_below_sin trig_below_cos)

lemma degree_sum_legendre:
  assumes pf: "p_filled theta 362 362 p" and n: "n \<le> 360"
  shows "degree_sum D (\<lambda>k. the (p k)) (\<lambda>m. sin (real m * rlon)) (\<lambda>m. cos (real m * rlon)) cc cs n
         = legendre_sum D theta rlon cc cs n"
proof -
  have v: "the (p (tri n + m + 1)) = rleg_val theta m (n - m)" if "m \<le> n" for m
    using p_filled_final(2)[OF pf that n] by simp
  have v0: "the (p (tri n + 1)) = rleg_val theta 0 n" using v[of 0] by simp
  have s: "(\<Sum>m = 1..n. the (p (tri n + m + 1))
           * (D (tri n + m + 1) cc * cos (real m * rlon) + D (tri n + m + 1) cs * sin (real m * rlon)))
      = (\<Sum>m = 1..n. rleg_val theta m (n - m)
           * (D (tri n + m + 1) cc * cos (real m * rlon) + D (tri n + m + 1) cs * sin (real m * rlon)))"
    by (rule sum.cong) (use v in auto)
  show ?thesis
    unfolding degree_sum_def legendre_sum_def
    by (simp only: v0 s) (simp only: tri_def)
qed

lemma synthesis_of_scatter:
  assumes pf: "p_filled theta 362 362 p"
    and t: "\<forall>m. 1 \<le> m \<and> m \<le> 360 \<longrightarrow>
              sinml m = Some (sin (real m * rlon)) \<and> cosml m = Some (cos (real m * rlon))"
  shows "calculateGravitationalUndulation D p sinml cosml gr re
         = Some (undulation_closed D theta rlon gr re)"
proof -
  let ?P = "\<lambda>k. the (p k)" and ?S = "\<lambda>m. sin (real m * rlon)" and ?C = "\<lambda>m. cos (real m * rlon)"
  have a: "(\<Sum>d = 2..360. degree_sum D ?P ?S ?C 2 3 d * (WGS84DatumSurfaceEquatorialRadius / re) ^ d)
      = (\<Sum>n = 2..360. legendre_sum D theta rlon 2 3 n * (6378137.0 / re) ^ n)"
    by (rule sum.cong)
       (simp_all add: degree_sum_legendre[OF pf] WGS84DatumSurfaceEquatorialRadius_def)
  have b: "(\<Sum>d = 2..360. degree_sum D ?P ?S ?C 0 1 d)
      = (\<Sum>n = 2..360. legendre_sum D theta rlon 0 1 n)"
    by (rule sum.cong) (simp_all add: degree_sum_legendre[OF pf])
  have i: "tri 1 + 0 + 1 = 2" "tri 1 + 1 + 1 = 3" "1 - 0 = (1::nat)" "1 - 1 = (0::nat)"
    by (simp_all add: tri_def)
  have "p (tri 1 + 0 + 1) = Some (rleg_val theta 0 (1 - 0))"
    by (rule p_filled_final(2)[OF pf]) simp_all
  then have p2: "the (p 2) = rleg_val theta 0 1" unfolding i by simp
  have "p (tri 1 + 1 + 1) = Some (rleg_val theta 1 (1 - 1))"
    by (rule p_filled_final(2)[OF pf]) simp_all
  then have p3: "the (p 3) = rleg_val theta 1 0" unfolding i by simp
  have gm: "WGS84GravitationalConstant = 398600441800000"
    by (simp add: WGS84GravitationalConstant_def)
  show ?thesis
    unfolding synthesis_value[OF filled_populated[OF pf] t] a b p2 p3 gm undulation_closed_def Let_def
    by simp
qed

lemma query_unfold:
  assumes g: "computeGeocentricMetrics lat lon = (rlat, gr, re)"
    and f: "for_u32 1 (maxDeg + 1) (order_fill built_tables (M / 2 - rlat)) (Map.empty, Map.empty)
            = Some (p, rleg)"
  shows "calculateGeoidUndulationAtCoordinates M built_tables D lat lon
         = calculateGravitationalUndulation D p
             (fst (trig_below lon 361)) (snd (trig_below lon 361)) gr re"
  unfolding calculateGeoidUndulationAtCoordinates_def Let_def g prod.case
  by (simp only: f bind.simps prod.case trig_result_pair)

lemma query_value:
  assumes g: "computeGeocentricMetrics lat lon = (rlat, gr, re)"
  shows "calculateGeoidUndulationAtCoordinates M built_tables D lat lon
         = Some (undulation_closed D (M / 2 - rlat) lon gr re)"
proof -
  obtain p rleg where f: "for_u32 1 (maxDeg + 1) (order_fill built_tables (M / 2 - rlat))
        (Map.empty, Map.empty) = Some (p, rleg)"
    and pf: "p_filled (M / 2 - rlat) 362 362 p"
    using fill_loop[of "M / 2 - rlat"] by blast
  show ?thesis
    unfolding query_unfold[OF g f] by (rule synthesis_of_scatter[OF pf trig_populated])
qed


lemma offset_value:
  assumes g: "computeGeocentricMetrics (lat / (180 / M)) (lon / (180 / M)) = (rlat, gr, re)"
  shows "egm96ComputeAltitudeOffset M built_tables D lat lon
         = Some (undulation_closed D (M / 2 - rlat) (lon / (180 / M)) gr re)"
proof -
  have rad: "(180.0::real) / M = 180 / M" by simp
  show ?thesis
    unfolding egm96ComputeAltitudeOffset_def Let_def rad by (rule query_value[OF g])
qed


lemma legendre_sum_row_2:
  assumes n: "2 \<le> n"
  shows "legendre_sum (\<lambda>k c. if k = 2 \<and> c = 0 then 100 else 0) theta rlon cc cs n = 0"
proof -
  have "tri 2 \<le> tri n" using n by (rule tri_mono)
  then have "3 \<le> n * (n + 1) div 2" by (simp add: tri_def)
  then have z: "(if n * (n + 1) div 2 + m + 1 = 2 \<and> c = 0 then 100 else 0) = (0::real)"
    and z0: "(if n * (n + 1) div 2 + 1 = 2 \<and> c = 0 then 100 else 0) = (0::real)"
    for m and c :: nat
    by simp_all
  show ?thesis unfolding legendre_sum_def by (simp only: z z0) simp
qed

lemma undulation_closed_row_2:
  "undulation_closed (\<lambda>k c. if k = 2 \<and> c = 0 then 100 else 0) theta rlon gr re
   = sqrt 3 * cos theta - 0.53"
proof -
  let ?D = "\<lambda>k c. if k = 2 \<and> c = (0::nat) then 100 else (0::real)"
  have a: "(\<Sum>n = 2..360. legendre_sum ?D theta rlon 2 3 n * (6378137.0 / re) ^ n) = 0"
    by (rule sum.neutral) (simp add: legendre_sum_row_2)
  have b: "(\<Sum>n = 2..360. legendre_sum ?D theta rlon 0 1 n) = 0"
    by (rule sum.neutral) (simp add: legendre_sum_row_2)
  show ?thesis unfolding undulation_closed_def Let_def a b by simp
qed

text \<open>
  C2, as stated, fails: at latitude \<open>90\<close>, longitude \<open>0\<close> and the coefficient table whose
  only entry other than zero is \<^verbatim>\<open>egm96Data[2][0] = 100\<close>, the entry point on the
  constructed model, with \<^verbatim>\<open>M_PI\<close> the double nearest to \<open>\<pi>\<close>, returns the value
  \<open>\<surd>3 cos \<theta> - 0.53\<close>, where \<open>\<theta> = M_PI / 2 - atan ((1 - e\<^sup>2) tan (M_PI / 2))\<close> is the
  geocentric colatitude computed for the pole; there is no error it could report.
\<close>

theorem pole_returns_value:
  "egm96ComputeAltitudeOffset M_PI_double built_tables
     (\<lambda>k c. if k = 2 \<and> c = 0 then 100 else 0) 90 0
   = Some (sqrt 3 * cos (M_PI_double / 2
                         - arctan ((1 - 0.00669437999013) * tan (M_PI_double / 2)))
           - 0.53)"
proof -
  obtain rlat gr re where
    g: "computeGeocentricMetrics (90 / (180 / M_PI_double)) (0 / (180 / M_PI_double))
        = (rlat, gr, re)"
    by (cases "computeGeocentricMetrics (90 / (180 / M_PI_double)) (0 / (180 / M_PI_double))")
  have h: "90 / (180 / M_PI_double) = M_PI_double / 2" by simp
  have "rlat = fst (computeGeocentricMetrics (90 / (180 / M_PI_double)) (0 / (180 / M_PI_double)))"
    unfolding g by simp
  also have "\<dots> = arctan ((1 - 0.00669437999013) * tan (M_PI_double / 2))"
    unfolding h by (rule geocentric_latitude[OF cos_pole_pos(1)])
  finally have r: "rlat = arctan ((1 - 0.00669437999013) * tan (M_PI_double / 2))" .
  show ?thesis
    unfolding offset_value[OF g] undulation_closed_row_2 r ..
qed


section \<open>The claims about the query\<close>

lemma pole_latitude:
  "0 < arctan ((1 - 0.00669437999013) * tan (M_PI_double / 2))"
  "arctan ((1 - 0.00669437999013) * tan (- (M_PI_double / 2))) < 0"
proof -
  have "0 < tan (M_PI_double / 2)"
    using M_PI_double_pos M_PI_double_less_pi by (intro tan_gt_zero) simp_all
  then have "0 < (1 - 0.00669437999013) * tan (M_PI_double / 2)" by simp
  then show "0 < arctan ((1 - 0.00669437999013) * tan (M_PI_double / 2))"
    by (simp only: zero_less_arctan_iff)
  then show "arctan ((1 - 0.00669437999013) * tan (- (M_PI_double / 2))) < 0"
    by (simp only: tan_minus mult_minus_right arctan_minus neg_less_0_iff_less)
qed

lemma pole_value:
  assumes c: "0 < cos (lat / (180 / M))"
  shows "case computeGeocentricMetrics (lat / (180 / M)) (lon / (180 / M)) of
           (rlat, gr, re) \<Rightarrow>
             rlat = arctan ((1 - 0.00669437999013) * tan (lat / (180 / M)))
             \<and> egm96ComputeAltitudeOffset M built_tables D lat lon
                 = Some (undulation_closed D (M / 2 - rlat) (lon / (180 / M)) gr re)"
proof -
  obtain rlat gr re where
    g: "computeGeocentricMetrics (lat / (180 / M)) (lon / (180 / M)) = (rlat, gr, re)"
    by (cases "computeGeocentricMetrics (lat / (180 / M)) (lon / (180 / M))")
  have "rlat = fst (computeGeocentricMetrics (lat / (180 / M)) (lon / (180 / M)))"
    unfolding g by simp
  then have "rlat = arctan ((1 - 0.00669437999013) * tan (lat / (180 / M)))"
    unfolding geocentric_latitude[OF c] .
  then show ?thesis unfolding g prod.case using offset_value[OF g] by blast
qed

text \<open>
  C2 (amended). For latitude exactly \<open>+90\<close> or \<open>-90\<close> degrees the computation reports
  no error, and no undefined value arises on the way. The entry point passes on
  \<open>\<plusminus>M_PI / 2\<close>, with \<^verbatim>\<open>M_PI\<close> the double nearest to \<open>\<pi>\<close>, where the cosine of the latitude
  is positive, not zero; the geocentric latitude is the defined quantity
  \<open>atan ((1 - e\<^sup>2) tan lat)\<close>, positive at \<open>+90\<close> and negative at \<open>-90\<close>; and on the
  constructed model the call returns the value of the harmonic synthesis at the
  colatitude \<open>M_PI / 2 - rlat\<close>, at every longitude and for every coefficient table, as
  it does at every other latitude.
\<close>

theorem pole_no_error:
  "(0 < cos (90 / (180 / M_PI_double))
    \<and> 0 < arctan ((1 - 0.00669437999013) * tan (90 / (180 / M_PI_double)))
    \<and> (case computeGeocentricMetrics (90 / (180 / M_PI_double)) (lon / (180 / M_PI_double)) of
          (rlat, gr, re) \<Rightarrow>
            rlat = arctan ((1 - 0.00669437999013) * tan (90 / (180 / M_PI_double)))
            \<and> egm96ComputeAltitudeOffset M_PI_double built_tables egm96Data 90 lon
                = Some (undulation_closed egm96Data (M_PI_double / 2 - rlat)
                          (lon / (180 / M_PI_double)) gr re)))
   \<and> (0 < cos (- 90 / (180 / M_PI_double))
    \<and> arctan ((1 - 0.00669437999013) * tan (- 90 / (180 / M_PI_double))) < 0
    \<and> (case computeGeocentricMetrics (- 90 / (180 / M_PI_double)) (lon / (180 / M_PI_double)) of
          (rlat, gr, re) \<Rightarrow>
            rlat = arctan ((1 - 0.00669437999013) * tan (- 90 / (180 / M_PI_double)))
            \<and> egm96ComputeAltitudeOffset M_PI_double built_tables egm96Data (- 90) lon
                = Some (undulation_closed egm96Data (M_PI_double / 2 - rlat)
                          (lon / (180 / M_PI_double)) gr re)))"
proof -
  have h: "90 / (180 / M_PI_double) = M_PI_double / 2"
    "- 90 / (180 / M_PI_double) = - (M_PI_double / 2)" by simp_all
  have c: "0 < cos (90 / (180 / M_PI_double))" "0 < cos (- 90 / (180 / M_PI_double))"
    unfolding h by (rule cos_pole_pos)+
  have a: "0 < arctan ((1 - 0.00669437999013) * tan (90 / (180 / M_PI_double)))"
    "arctan ((1 - 0.00669437999013) * tan (- 90 / (180 / M_PI_double))) < 0"
    unfolding h by (rule pole_latitude)+
  show ?thesis
    by (intro conjI c a pole_value[OF c(1)] pole_value[OF c(2)])
qed







lemma order_loop_counter:
  assumes n: "2 \<le> n" "n \<le> 360" "m \<le> n"
    and p: "\<forall>k. 2 \<le> k \<and> k \<le> 65341 \<longrightarrow> p k = Some (P k)"
    and t: "\<forall>m. 1 \<le> m \<and> m \<le> 360 \<longrightarrow> sinml m = Some (S m) \<and> cosml m = Some (C m)"
  shows "map_option fst (for_u32 1 m (order_step D p sinml cosml) (tri n + 1, s0, sc0))
         = Some (tri n + m + 1)"
proof -
  have "for_u32 1 m (order_step D p sinml cosml) (tri n + 1, s0, sc0)
      = Some (order_below D P S C (tri n + 1) s0 sc0 (Suc m))"
  proof (rule order_loop)
    fix m' assume m': "1 \<le> m'" "m' \<le> m"
    show "cosml m' = Some (C m')" "sinml m' = Some (S m')" using t m' n by auto
    have "tri n + 1 + m' \<le> tri (Suc n)" using m' n by (simp add: tri_Suc)
    also have "\<dots> \<le> tri 361" using n by (intro tri_mono) simp
    finally have "tri n + 1 + m' \<le> 65341" unfolding tri_361 .
    then have "2 \<le> tri n + 1 + m' \<and> tri n + 1 + m' \<le> 65341" using m' by simp
    then show "p (tri n + 1 + m') = Some (P (tri n + 1 + m'))" using p by blast
  qed
  then show ?thesis by (simp add: order_below_def)
qed

lemma degree_loop_counter:
  assumes n: "2 \<le> n" "n \<le> 360"
    and p: "\<forall>k. 2 \<le> k \<and> k \<le> 65341 \<longrightarrow> p k = Some (P k)"
    and t: "\<forall>m. 1 \<le> m \<and> m \<le> 360 \<longrightarrow> sinml m = Some (S m) \<and> cosml m = Some (C m)"
  shows "map_option (fst \<circ> snd) (for_u32 2 (n - 1) (degree_step D p sinml cosml ar) (ar, 3, 0, 0))
         = Some (tri n)"
proof -
  have "for_u32 2 (n - 1) (degree_step D p sinml cosml ar) (ar, 3, 0, 0)
      = Some (degree_below D P S C ar (Suc (n - 1)))"
  proof (rule degree_loop)
    fix k :: nat assume k: "4 \<le> k" "k \<le> tri (Suc (n - 1))"
    have "tri (Suc (n - 1)) \<le> tri 361" using n by (intro tri_mono) simp
    then have "k \<le> 65341" using k unfolding tri_361 by simp
    then show "p k = Some (P k)" using p k by simp
  qed (use t n in auto)
  moreover have "Suc (n - 1) = n" using n by simp
  ultimately show ?thesis by (simp add: degree_below_def)
qed

lemma order_step_at_index:
  assumes p: "p (k + 1) = Some v" and c: "cosml m = Some c" and s: "sinml m = Some s"
  shows "order_step D p sinml cosml m (k, s0, sc0)
         = Some (k + 1, s0 + v * (D (k + 1) 2 * c + D (k + 1) 3 * s),
                        sc0 + v * (D (k + 1) 0 * c + D (k + 1) 1 * s))"
  unfolding order_step.simps Let_def rd_def
  by (simp only: p c s bind.simps)

lemma degree_step_at_degree:
  assumes n: "2 \<le> n" "n \<le> 360"
    and pf: "p_filled theta 362 362 p"
    and t: "\<forall>m. 1 \<le> m \<and> m \<le> 360 \<longrightarrow>
              sinml m = Some (sin (real m * rlon)) \<and> cosml m = Some (cos (real m * rlon))"
  shows "degree_step D p sinml cosml ar n (arn, n * (n + 1) div 2, ac, a)
         = Some (arn * ar, n * (n + 1) div 2 + n + 1,
                 ac + legendre_sum D theta rlon 0 1 n,
                 a + legendre_sum D theta rlon 2 3 n * (arn * ar))"
proof -
  let ?k = "n * (n + 1) div 2"
  let ?L = "\<lambda>k. rleg_val theta (k - (?k + 1)) (n - (k - (?k + 1)))"
  let ?S = "\<lambda>m. sin (real m * rlon)" and ?C = "\<lambda>m. cos (real m * rlon)"
  have pv: "p (?k + m + 1) = Some (rleg_val theta m (n - m))" if "m \<le> n" for m
    using p_filled_final(2)[OF pf that n(2)] unfolding tri_def .
  have p0: "p (?k + 1) = Some (rleg_val theta 0 n)" using pv[of 0] by simp
  have lp: "for_u32 1 n (order_step D p sinml cosml)
      (?k + 1, rleg_val theta 0 n * D (?k + 1) 2, rleg_val theta 0 n * D (?k + 1) 0)
      = Some (order_below D ?L ?S ?C (?k + 1) (rleg_val theta 0 n * D (?k + 1) 2)
                (rleg_val theta 0 n * D (?k + 1) 0) (Suc n))"
  proof (rule order_loop)
    fix m assume m: "1 \<le> m" "m \<le> n"
    show "cosml m = Some (cos (real m * rlon))" "sinml m = Some (sin (real m * rlon))"
      using t m n by auto
    have "p (?k + 1 + m) = Some (rleg_val theta m (n - m))"
      using pv[OF m(2)] by (simp add: add.assoc add.commute)
    then show "p (?k + 1 + m) = Some (?L (?k + 1 + m))" by simp
  qed
  have s: "(\<Sum>m = 1..<Suc n. ?L (?k + 1 + m) * (D (?k + 1 + m) cc * ?C m + D (?k + 1 + m) cs * ?S m))
      = (\<Sum>m = 1..n. rleg_val theta m (n - m)
           * (D (?k + m + 1) cc * cos (real m * rlon) + D (?k + m + 1) cs * sin (real m * rlon)))"
    for cc cs
    unfolding atLeastLessThanSuc_atLeastAtMost
    by (rule sum.cong) (simp_all add: add.assoc add.commute)
  show ?thesis
    unfolding degree_step.simps Let_def rd_def legendre_sum_def
    by (simp only: p0 bind.simps lp order_below_def prod.case s) simp
qed

text \<open>
  C9. In a query on the constructed model, let \<open>p\<close> be the array the scatter loops of
  lines 204-210 leave and \<open>sinml\<close>, \<open>cosml\<close> the longitude series. The scatter loops
  assign \<open>p\<close> at the indices \<open>1..65341\<close>, and for every degree \<open>n\<close> in \<open>2..360\<close> and
  order \<open>m \<le> n\<close> the entry \<open>p[n (n + 1) / 2 + m + 1]\<close> is the entry of degree \<open>n\<close> that
  \<^verbatim>\<open>computeNormalizedLegendreFunctions\<close> computes for the order \<open>m\<close>, the Legendre value
  of order \<open>m\<close> and degree \<open>n\<close>. In the synthesis the counter \<open>k\<close> is \<open>n (n + 1) / 2\<close>
  when the iteration of degree \<open>n\<close> begins and \<open>n (n + 1) / 2 + m + 1\<close> after the
  iteration of order \<open>m\<close>. That iteration, entered with \<open>k = n (n + 1) / 2 + m\<close>, adds to
  both sums the Legendre value of order \<open>m\<close> and degree \<open>n\<close> times the combination of
  the table's row \<open>n (n + 1) / 2 + m + 1\<close> with \<open>cos (m rlon)\<close> and \<open>sin (m rlon)\<close>; the
  iteration of degree \<open>n\<close>, entered with \<open>k = n (n + 1) / 2\<close>, leaves \<open>k\<close> at
  \<open>n (n + 1) / 2 + n + 1\<close> and adds to \<open>ac\<close> and \<open>a\<close> the sums over the orders \<open>0..n\<close> of
  these products, the order \<open>m\<close> against the row \<open>n (n + 1) / 2 + m + 1\<close>. The counter is
  \<open>65341\<close> when the loop ends, and the synthesis returns the value in which every
  Legendre value of order \<open>m'\<close> and degree \<open>n'\<close> stands against the row
  \<open>n' (n' + 1) / 2 + m' + 1\<close> of the table, \<open>p[2]\<close> and \<open>p[3]\<close> being the values of
  degree \<open>1\<close>: every element it read had been assigned by the scatter loops.
\<close>

theorem counter_tracks_index:
  assumes n: "2 \<le> n" "n \<le> 360" "m \<le> n"
  shows "\<exists>p rleg sinml cosml r.
      for_u32 1 (maxDeg + 1) (order_fill built_tables theta) (Map.empty, Map.empty)
        = Some (p, rleg)
    \<and> computeTrigonometricSeriesForLongitude rlon Map.empty Map.empty = Some (sinml, cosml)
    \<and> dom p = {1..65341}
    \<and> computeNormalizedLegendreFunctions built_tables m theta rleg0 = Some r
    \<and> r (n + 1) = Some (rleg_val theta m (n - m))
    \<and> p (n * (n + 1) div 2 + m + 1) = r (n + 1)
    \<and> map_option (fst \<circ> snd)
         (for_u32 2 (n - 1) (degree_step egm96Data p sinml cosml ar) (ar, 3, 0, 0))
       = Some (n * (n + 1) div 2)
    \<and> map_option fst
         (for_u32 1 m (order_step egm96Data p sinml cosml) (n * (n + 1) div 2 + 1, s0, sc0))
       = Some (n * (n + 1) div 2 + m + 1)
    \<and> (1 \<le> m \<longrightarrow>
         order_step egm96Data p sinml cosml m (n * (n + 1) div 2 + m, s0, sc0)
         = Some (n * (n + 1) div 2 + m + 1,
                 s0 + rleg_val theta m (n - m)
                      * (egm96Data (n * (n + 1) div 2 + m + 1) 2 * cos (real m * rlon)
                         + egm96Data (n * (n + 1) div 2 + m + 1) 3 * sin (real m * rlon)),
                 sc0 + rleg_val theta m (n - m)
                       * (egm96Data (n * (n + 1) div 2 + m + 1) 0 * cos (real m * rlon)
                          + egm96Data (n * (n + 1) div 2 + m + 1) 1 * sin (real m * rlon))))
    \<and> degree_step egm96Data p sinml cosml ar n (arn, n * (n + 1) div 2, ac, a)
       = Some (arn * ar, n * (n + 1) div 2 + n + 1,
               ac + (rleg_val theta 0 n * egm96Data (n * (n + 1) div 2 + 1) 0
                     + (\<Sum>m' = 1..n. rleg_val theta m' (n - m')
                          * (egm96Data (n * (n + 1) div 2 + m' + 1) 0 * cos (real m' * rlon)
                             + egm96Data (n * (n + 1) div 2 + m' + 1) 1 * sin (real m' * rlon)))),
               a + (rleg_val theta 0 n * egm96Data (n * (n + 1) div 2 + 1) 2
                    + (\<Sum>m' = 1..n. rleg_val theta m' (n - m')
                         * (egm96Data (n * (n + 1) div 2 + m' + 1) 2 * cos (real m' * rlon)
                            + egm96Data (n * (n + 1) div 2 + m' + 1) 3 * sin (real m' * rlon))))
                   * (arn * ar))
    \<and> map_option (fst \<circ> snd)
         (for_u32 2 maxDeg (degree_step egm96Data p sinml cosml ar) (ar, 3, 0, 0))
       = Some 65341
    \<and> calculateGravitationalUndulation egm96Data p sinml cosml gr re
       = Some (let a = (\<Sum>n' = 2..360.
                          (rleg_val theta 0 n' * egm96Data (n' * (n' + 1) div 2 + 1) 2
                           + (\<Sum>m' = 1..n'. rleg_val theta m' (n' - m')
                                * (egm96Data (n' * (n' + 1) div 2 + m' + 1) 2 * cos (real m' * rlon)
                                   + egm96Data (n' * (n' + 1) div 2 + m' + 1) 3 * sin (real m' * rlon))))
                          * (6378137.0 / re) ^ n');
                   ac = (\<Sum>n' = 2..360.
                          rleg_val theta 0 n' * egm96Data (n' * (n' + 1) div 2 + 1) 0
                          + (\<Sum>m' = 1..n'. rleg_val theta m' (n' - m')
                               * (egm96Data (n' * (n' + 1) div 2 + m' + 1) 0 * cos (real m' * rlon)
                                  + egm96Data (n' * (n' + 1) div 2 + m' + 1) 1 * sin (real m' * rlon))))
                        + (egm96Data 1 0 + rleg_val theta 0 1 * egm96Data 2 0
                           + rleg_val theta 1 0 * (egm96Data 3 0 * cos rlon + egm96Data 3 1 * sin rlon))
               in (a * 398600441800000) / (gr * re) + ac / 100 - 0.53)"
proof -
  obtain p rleg where f: "for_u32 1 (maxDeg + 1) (order_fill built_tables theta)
        (Map.empty, Map.empty) = Some (p, rleg)"
    and pf: "p_filled theta 362 362 p"
    using fill_loop[of theta] by blast
  let ?s = "fst (trig_below rlon 361)" and ?c = "snd (trig_below rlon 361)"
  let ?r = "rleg_below theta m rleg0 362"
  note pp = filled_populated[OF pf]
  note tp = trig_populated[of rlon]
  have m: "m \<le> 360" using n by simp
  have tr: "computeTrigonometricSeriesForLongitude rlon Map.empty Map.empty = Some (?s, ?c)"
    by (rule trig_result_pair)
  have dp: "dom p = {1..65341}" by (rule p_filled_final(1)[OF pf])
  have r: "computeNormalizedLegendreFunctions built_tables m theta rleg0 = Some ?r"
    by (rule computeNormalizedLegendreFunctions_built[OF m])
  have rv: "?r (n + 1) = Some (rleg_val theta m (n - m))"
    using n by (intro rleg_below_final) auto
  have pv: "p (n * (n + 1) div 2 + m + 1) = Some (rleg_val theta m (n - m))"
    using p_filled_final(2)[OF pf n(3,2)] unfolding tri_def .
  have pr: "p (n * (n + 1) div 2 + m + 1) = ?r (n + 1)"
    unfolding pv rv ..
  have k1: "map_option (fst \<circ> snd)
         (for_u32 2 (n - 1) (degree_step egm96Data p ?s ?c ar) (ar, 3, 0, 0))
       = Some (n * (n + 1) div 2)"
    using degree_loop_counter[OF n(1,2) pp tp] unfolding tri_def .
  have k2: "map_option fst
         (for_u32 1 m (order_step egm96Data p ?s ?c) (n * (n + 1) div 2 + 1, s0, sc0))
       = Some (n * (n + 1) div 2 + m + 1)"
    using order_loop_counter[OF n pp tp] unfolding tri_def .
  have os: "1 \<le> m \<longrightarrow>
         order_step egm96Data p ?s ?c m (n * (n + 1) div 2 + m, s0, sc0)
         = Some (n * (n + 1) div 2 + m + 1,
                 s0 + rleg_val theta m (n - m)
                      * (egm96Data (n * (n + 1) div 2 + m + 1) 2 * cos (real m * rlon)
                         + egm96Data (n * (n + 1) div 2 + m + 1) 3 * sin (real m * rlon)),
                 sc0 + rleg_val theta m (n - m)
                       * (egm96Data (n * (n + 1) div 2 + m + 1) 0 * cos (real m * rlon)
                          + egm96Data (n * (n + 1) div 2 + m + 1) 1 * sin (real m * rlon)))"
  proof
    assume "1 \<le> m"
    then have "?c m = Some (cos (real m * rlon))" "?s m = Some (sin (real m * rlon))"
      using tp m by simp_all
    then show "order_step egm96Data p ?s ?c m (n * (n + 1) div 2 + m, s0, sc0)
         = Some (n * (n + 1) div 2 + m + 1,
                 s0 + rleg_val theta m (n - m)
                      * (egm96Data (n * (n + 1) div 2 + m + 1) 2 * cos (real m * rlon)
                         + egm96Data (n * (n + 1) div 2 + m + 1) 3 * sin (real m * rlon)),
                 sc0 + rleg_val theta m (n - m)
                       * (egm96Data (n * (n + 1) div 2 + m + 1) 0 * cos (real m * rlon)
                          + egm96Data (n * (n + 1) div 2 + m + 1) 1 * sin (real m * rlon)))"
      by (intro order_step_at_index pv)
  qed
  note ds = degree_step_at_degree[OF n(1,2) pf tp, of egm96Data ar arn ac a,
      unfolded legendre_sum_def]
  have k3: "map_option (fst \<circ> snd)
         (for_u32 2 maxDeg (degree_step egm96Data p ?s ?c ar) (ar, 3, 0, 0))
       = Some 65341"
    by (simp add: synthesis_loop_360[OF pp tp])
  note u = synthesis_of_scatter[OF pf tp, of egm96Data gr re,
      unfolded undulation_closed_def legendre_sum_def[abs_def]]
  show ?thesis
    by (rule exI[of _ p], rule exI[of _ rleg], rule exI[of _ ?s], rule exI[of _ ?c],
        rule exI[of _ ?r], intro conjI)
       (rule f tr dp r rv pr k1 k2 os ds k3 u)+
qed

text \<open>
  The theorem at the last index: degree and order \<open>360\<close>, colatitude and longitude \<open>0\<close>,
  a table of zeros and \<open>ar = arn = ac = a = gr = re = 1\<close>.
\<close>

theorem counter_tracks_index_witness:
  "\<exists>p rleg sinml cosml r.
      for_u32 1 (maxDeg + 1) (order_fill built_tables 0) (Map.empty, Map.empty)
        = Some (p, rleg)
    \<and> computeTrigonometricSeriesForLongitude 0 Map.empty Map.empty = Some (sinml, cosml)
    \<and> dom p = {1..65341}
    \<and> computeNormalizedLegendreFunctions built_tables 360 0 Map.empty = Some r
    \<and> r 361 = Some (rleg_val 0 360 0)
    \<and> p 65341 = r 361
    \<and> map_option (fst \<circ> snd)
         (for_u32 2 359 (degree_step (\<lambda>k c. 0) p sinml cosml 1) (1, 3, 0, 0))
       = Some 64980
    \<and> map_option fst
         (for_u32 1 360 (order_step (\<lambda>k c. 0) p sinml cosml) (64981, 0, 0))
       = Some 65341
    \<and> order_step (\<lambda>k c. 0) p sinml cosml 360 (65340, 0, 0) = Some (65341, 0, 0)
    \<and> degree_step (\<lambda>k c. 0) p sinml cosml 1 360 (1, 64980, 1, 1) = Some (1, 65341, 1, 1)
    \<and> map_option (fst \<circ> snd)
         (for_u32 2 maxDeg (degree_step (\<lambda>k c. 0) p sinml cosml 1) (1, 3, 0, 0))
       = Some 65341
    \<and> calculateGravitationalUndulation (\<lambda>k c. 0) p sinml cosml 1 1 = Some (- 0.53)"
  using counter_tracks_index[of 360 360 0 0 Map.empty "\<lambda>k c. 0" 1 0 0 1 1 1 1 1]
  by simp

section \<open>No u32 subtraction wraps\<close>

lemma sub_u32_guarded:
  assumes "b \<le> a" "a < 2 ^ 32"
  shows "sub_u32 a b = a - b"
proof -
  have "a + 2 ^ 32 - b = (a - b) + 2 ^ 32" using assms(1) by simp
  then have "sub_u32 a b = (a - b) mod 2 ^ 32"
    unfolding sub_u32_def by (simp only: mod_add_self2)
  also have "\<dots> = a - b" using assms(2) by (intro mod_less) auto
  finally show ?thesis .
qed

text \<open>
  Every subtraction of the queries is of this kind: the loop bounds order its operands.
  Line 129 and 150 (\<open>n1 - 1\<close>), lines 100-101 (\<open>m - 1\<close>, \<open>m - 2\<close>), lines 205 and 208
  (\<open>j - 1\<close>, \<open>i - 1\<close>), and line 154 with \<open>n = n1 - 1\<close> and \<open>n2 = 2 * n\<close>.
\<close>

lemma sectoral_step_no_wrap:
  assumes "3 \<le> n1" "n1 \<le> m + 1" "m \<le> 360"
  shows "sub_u32 n1 1 = n1 - 1" "2 * (n1 - 1) + 1 < 2 ^ 32"
  using assms by (simp_all add: sub_u32_guarded)

lemma trig_step_no_wrap:
  assumes "3 \<le> m" "m \<le> 360"
  shows "sub_u32 m 1 = m - 1" "sub_u32 m 2 = m - 2"
  using assms by (simp_all add: sub_u32_guarded)

lemma scatter_no_wrap:
  assumes "1 \<le> j" "j \<le> i" "i \<le> 361"
  shows "sub_u32 j 1 = j - 1" "sub_u32 i 1 = i - 1" "(i - 1) * i < 2 ^ 32"
proof -
  show "sub_u32 j 1 = j - 1" "sub_u32 i 1 = i - 1"
    using assms by (simp_all add: sub_u32_guarded)
  have "(i - 1) * i \<le> 361 * 361" using assms by (intro mult_mono) auto
  then show "(i - 1) * i < 2 ^ 32" by simp
qed

lemma recurrence_step_no_wrap:
  assumes "m + 3 \<le> n1" "n1 \<le> 361"
  shows "sub_u32 n1 1 = n1 - 1" "sub_u32 n1 2 = n1 - 2"
    "sub_u32 (n1 - 1) m = n1 - 1 - m"
    "sub_u32 (sub_u32 (n1 - 1) m) 1 = n1 - 1 - m - 1"
    "sub_u32 (n1 - 1 + m) 1 = n1 - 1 + m - 1"
    "sub_u32 (2 * (n1 - 1)) 1 = 2 * (n1 - 1) - 1"
    "sub_u32 (2 * (n1 - 1)) 3 = 2 * (n1 - 1) - 3"
    "\<not> ((m = 0 \<and> n1 - 1 < 2) \<or> (m = 1 \<and> n1 - 1 < 3))"
  using assms by (auto simp: sub_u32_guarded)

end
